theory Spec2Isabelle
  imports Main
begin

section \<open>Speech-corpus catalogs of \<open>dataset.py\<close>\<close>

text \<open>
  The module \<open>dataset.py\<close> builds, for three corpus layouts, a list of pairs
  (audio path, transcript) and serves it by index. The builders read CSV metadata,
  directory listings and transcript files, and convert audio whose WAV file is missing.
  Everything outside the Python code (the file system, the CSV reader, the converters)
  is a value of the record \<open>world\<close>; every exception of the source is a value of
  \<open>py_error\<close>.
\<close>

subsection \<open>Exceptions\<close>

datatype py_error =
    ValueError string
  | IndexError
  | KeyError string
  | NotImplementedError
  | FileNotFoundError string
  | IOError string
  | AttributeError string
  | TypeError

subsection \<open>Strings and paths\<close>

text \<open>\<open>s.startswith(p)\<close> and \<open>s.endswith(p)\<close>.\<close>

definition startswith :: "string \<Rightarrow> string \<Rightarrow> bool" where
  "startswith s p = (take (length p) s = p)"

definition endswith :: "string \<Rightarrow> string \<Rightarrow> bool" where
  "endswith s p = (length p \<le> length s \<and> drop (length s - length p) s = p)"

text \<open>
  \<open>s.replace(old, new)\<close>: every occurrence of \<open>old\<close>, found from left to right without
  overlap, is replaced. For an empty \<open>old\<close> Python puts \<open>new\<close> before every character
  and at the end.
\<close>

fun replace_scan :: "string \<Rightarrow> string \<Rightarrow> string \<Rightarrow> string" where
  "replace_scan old new [] = []"
| "replace_scan old new (c # cs) =
     (if startswith (c # cs) old
      then new @ replace_scan old new (drop (length old - 1) cs)
      else c # replace_scan old new cs)"

definition str_replace :: "string \<Rightarrow> string \<Rightarrow> string \<Rightarrow> string" where
  "str_replace s old new =
     (if old = [] then new @ concat (map (\<lambda>c. c # new) s)
      else replace_scan old new s)"

text \<open>\<open>s.lower()\<close> on the ASCII letters (a character of the model is a byte).\<close>

definition lower_char :: "char \<Rightarrow> char" where
  "lower_char c =
     (if 65 \<le> (of_char c :: nat) \<and> (of_char c :: nat) \<le> 90
      then char_of ((of_char c :: nat) + 32) else c)"

definition lower :: "string \<Rightarrow> string" where
  "lower s = map lower_char s"

text \<open>\<open>os.path.join\<close> of \<open>posixpath\<close>, for two and for three components.\<close>

definition path_join :: "string \<Rightarrow> string \<Rightarrow> string" where
  "path_join a b =
     (if startswith b ''/'' then b
      else if a = [] \<or> endswith a ''/'' then a @ b
      else a @ ''/'' @ b)"

definition path_join3 :: "string \<Rightarrow> string \<Rightarrow> string \<Rightarrow> string" where
  "path_join3 a b c = path_join (path_join a b) c"

text \<open>
  \<open>s.split(' ', maxsplit=1)\<close>: the text before the first space and the text after it,
  or the whole string alone when it has no space.
\<close>

definition split_first_space :: "string \<Rightarrow> string list" where
  "split_first_space s =
     (if CHR '' '' \<in> set s
      then [takeWhile (\<lambda>c. c \<noteq> CHR '' '') s, tl (dropWhile (\<lambda>c. c \<noteq> CHR '' '') s)]
      else [s])"

subsection \<open>\<open>int(s)\<close> on decimal text\<close>

text \<open>
  \<open>int\<close> of a string: ASCII white space around an optional sign and decimal digits;
  anything else is a \<open>ValueError\<close>.
\<close>

definition is_digit :: "char \<Rightarrow> bool" where
  "is_digit c = (48 \<le> (of_char c :: nat) \<and> (of_char c :: nat) \<le> 57)"

definition digit_val :: "char \<Rightarrow> nat" where
  "digit_val c = (of_char c :: nat) - 48"

definition is_space :: "char \<Rightarrow> bool" where
  "is_space c = ((of_char c :: nat) \<in> {9, 10, 11, 12, 13, 32})"

text \<open>Digits, with single underscores allowed between two digits.\<close>

fun parse_digits :: "nat \<Rightarrow> string \<Rightarrow> nat option" where
  "parse_digits acc [] = None"
| "parse_digits acc [c] = (if is_digit c then Some (10 * acc + digit_val c) else None)"
| "parse_digits acc (c # d # cs) =
     (if \<not> is_digit c then None
      else if d = CHR ''_'' then parse_digits (10 * acc + digit_val c) cs
      else parse_digits (10 * acc + digit_val c) (d # cs))"

definition strip :: "string \<Rightarrow> string" where
  "strip s = rev (dropWhile is_space (rev (dropWhile is_space s)))"

definition py_int :: "string \<Rightarrow> py_error + int" where
  "py_int s =
     (let t = strip s;
          neg = startswith t ''-'' \<and> t \<noteq> [];
          body = (if t \<noteq> [] \<and> (hd t = CHR ''-'' \<or> hd t = CHR ''+'') then tl t else t)
      in case parse_digits 0 body of
           None \<Rightarrow> Inl (ValueError s)
         | Some n \<Rightarrow> Inr (if neg then - int n else int n))"

subsection \<open>The world outside the program\<close>

text \<open>
  A row of \<open>csv.DictReader\<close>: the column names of the header, taken to be distinct,
  with the row's values. Every value is a string: a row shorter than the header, whose
  missing values \<open>DictReader\<close> fills with \<open>None\<close>, is not a row of the model.
\<close>

type_synonym row = "(string \<times> string) list"

definition row_get :: "row \<Rightarrow> string \<Rightarrow> py_error + string" where
  "row_get r k = (case map_of r k of None \<Rightarrow> Inl (KeyError k) | Some v \<Rightarrow> Inr v)"

text \<open>
  \<open>present\<close> is the set of paths for which \<open>os.path.exists\<close> holds; \<open>csv_rows p\<close> is what
  \<open>csv.DictReader\<close> yields for the file \<open>p\<close>, \<open>readlines p\<close> what \<open>f.readlines()\<close> yields,
  \<open>listdir p\<close> what \<open>os.listdir(p)\<close> yields (each \<open>None\<close> when the file or directory
  cannot be opened), \<open>samples p\<close> the number of samples \<open>soundfile.read(p)[0].size\<close>
  of an audio file; \<open>conversions\<close> records every audio file written, oldest first.
\<close>

record world =
  present :: "string set"
  csv_rows :: "string \<Rightarrow> row list option"
  readlines :: "string \<Rightarrow> string list option"
  listdir :: "string \<Rightarrow> string list option"
  samples :: "string \<Rightarrow> nat option"
  conversions :: "(string \<times> string) list"

text \<open>
  Modelled from the spec: the external converter \<open>sox.Transformer.build(src, dst)\<close>, of
  which only the call is in the source. The spec gives its contract as
  "convert(path_in, path_out, sample_rate, bit_depth, channels) -> written file"; a
  missing input is an error.
\<close>

definition sox_build :: "string \<Rightarrow> string \<Rightarrow> world \<Rightarrow> py_error + world" where
  "sox_build src dst w =
     (if src \<in> present w
      then Inr (w\<lparr>present := insert dst (present w),
                  conversions := conversions w @ [(src, dst)]\<rparr>)
      else Inl (IOError src))"

subsection \<open>The catalog and its accessors\<close>

type_synonym entry = "string \<times> string"

datatype dataset =
    CommonVoiceDataset "entry list"
  | LibriSpeechDataset "entry list"
  | CustomDataset "entry list"

fun data_of :: "dataset \<Rightarrow> entry list" where
  "data_of (CommonVoiceDataset xs) = xs"
| "data_of (LibriSpeechDataset xs) = xs"
| "data_of (CustomDataset xs) = xs"

text \<open>\<open>xs[i]\<close> of a Python list: a negative index counts from the end.\<close>

definition list_index :: "'a list \<Rightarrow> int \<Rightarrow> py_error + 'a" where
  "list_index xs i =
     (let n = int (length xs); j = (if i < 0 then i + n else i)
      in if 0 \<le> j \<and> j < n then Inr (xs ! nat j) else Inl IndexError)"

fun size_ds :: "dataset \<Rightarrow> int" where
  "size_ds (CommonVoiceDataset xs) = int (length xs)"
| "size_ds (LibriSpeechDataset xs) = int (length xs)"
| "size_ds (CustomDataset xs) = int (length xs)"

fun get :: "dataset \<Rightarrow> int \<Rightarrow> py_error + entry" where
  "get (CommonVoiceDataset xs) index = list_index xs index"
| "get (LibriSpeechDataset xs) index = list_index xs index"
| "get (CustomDataset xs) index = list_index xs index"

fun str_ds :: "dataset \<Rightarrow> string" where
  "str_ds (CommonVoiceDataset xs) = ''Common Voice Dataset''"
| "str_ds (LibriSpeechDataset xs) = ''LibriSpeech Dataset''"
| "str_ds (CustomDataset xs) = ''Custom Dataset''"

fun all_data :: "dataset \<Rightarrow> py_error + entry list" where
  "all_data (CommonVoiceDataset xs) = Inl NotImplementedError"
| "all_data (LibriSpeechDataset xs) = Inl NotImplementedError"
| "all_data (CustomDataset xs) = Inr xs"


text \<open>
  Modelled from the spec: the external \<open>soundfile.read(path)\<close>, the spec's
  "read(path) -> (samples, sample_rate)". It raises when the file is missing or
  cannot be decoded; otherwise the model keeps of the samples their number.
\<close>

definition soundfile_read :: "string \<Rightarrow> world \<Rightarrow> py_error + nat" where
  "soundfile_read path w =
     (if path \<in> present w
      then (case samples w path of None \<Rightarrow> Inl (IOError path) | Some n \<Rightarrow> Inr n)
      else Inl (IOError path))"

text \<open>
  Modelled from the spec: the external \<open>soundfile.write(wav_path, pcm, sample_rate)\<close>,
  the spec's "write(path, samples, sample_rate)", for the path
  \<open>wav_path = chapter_dir/wav_file\<close>. The written file exists afterwards, holds the
  samples written, and shows at the end of the listing of \<open>chapter_dir\<close>, the older
  names keeping their order.
\<close>

definition soundfile_write :: "string \<Rightarrow> string \<Rightarrow> string \<Rightarrow> nat \<Rightarrow> world \<Rightarrow> world" where
  "soundfile_write chapter_dir wav_file flac_path pcm w =
     w\<lparr>present := insert (path_join chapter_dir wav_file) (present w),
       listdir := (listdir w)(chapter_dir :=
          map_option (\<lambda>ns. if wav_file \<in> set ns then ns else ns @ [wav_file])
            (listdir w chapter_dir)),
       samples := (samples w)(path_join chapter_dir wav_file \<mapsto> pcm),
       conversions := conversions w @ [(flac_path, path_join chapter_dir wav_file)]\<rparr>"

text \<open>
  The two lines \<open>pcm, sample_rate = soundfile.read(flac_path)\<close> and
  \<open>soundfile.write(wav_path, pcm, sample_rate)\<close> of the LibriSpeech loop.
\<close>

definition soundfile_convert ::
  "string \<Rightarrow> string \<Rightarrow> string \<Rightarrow> world \<Rightarrow> py_error + world" where
  "soundfile_convert chapter_dir wav_file flac_path w =
     (case soundfile_read flac_path w of
        Inl e \<Rightarrow> Inl e
      | Inr pcm \<Rightarrow> Inr (soundfile_write chapter_dir wav_file flac_path pcm w))"

subsection \<open>\<open>CommonVoiceDataset.__init__\<close>\<close>

text \<open>
  One pass of the loop body over a row: the entries it appends to \<open>_data\<close> and the
  world it leaves.
\<close>

definition cv_row :: "string \<Rightarrow> row \<Rightarrow> world \<Rightarrow> py_error + (entry list \<times> world)" where
  "cv_row root r w =
     (case row_get r ''text'' of Inl e \<Rightarrow> Inl e | Inr t \<Rightarrow>
      let text = lower t in
      case row_get r ''up_votes'' of Inl e \<Rightarrow> Inl e | Inr u \<Rightarrow>
      case py_int u of Inl e \<Rightarrow> Inl e | Inr up_votes \<Rightarrow>
      case row_get r ''down_votes'' of Inl e \<Rightarrow> Inl e | Inr dv \<Rightarrow>
      case py_int dv of Inl e \<Rightarrow> Inl e | Inr down_votes \<Rightarrow>
      if up_votes < 2 \<or> down_votes > 0 \<or> length text = 0 then Inr ([], w)
      else
        case row_get r ''filename'' of Inl e \<Rightarrow> Inl e | Inr filename \<Rightarrow>
        let mp3_path = path_join root filename;
            wav_path = str_replace mp3_path ''.mp3'' ''.wav''
        in case (if wav_path \<notin> present w then sox_build mp3_path wav_path w else Inr w) of
             Inl e \<Rightarrow> Inl e
           | Inr w' \<Rightarrow> Inr ([(wav_path, text)], w'))"

text \<open>The \<open>for\<close> loop over the rows of a CSV file, for any loop body.\<close>

fun rows_loop ::
  "(row \<Rightarrow> world \<Rightarrow> py_error + (entry list \<times> world)) \<Rightarrow> row list \<Rightarrow> entry list \<Rightarrow> world
     \<Rightarrow> py_error + (entry list \<times> world)" where
  "rows_loop body [] data w = Inr (data, w)"
| "rows_loop body (r # rs) data w =
     (case body r w of
        Inl e \<Rightarrow> Inl e
      | Inr (es, w') \<Rightarrow> rows_loop body rs (data @ es) w')"

definition CommonVoiceDataset_init :: "string \<Rightarrow> world \<Rightarrow> py_error + (dataset \<times> world)" where
  "CommonVoiceDataset_init root w =
     (let metadata_path = path_join root ''cv-valid-test.csv'' in
      case csv_rows w metadata_path of
        None \<Rightarrow> Inl (FileNotFoundError metadata_path)
      | Some rows \<Rightarrow>
          (case rows_loop (cv_row root) rows [] w of
             Inl e \<Rightarrow> Inl e
           | Inr (data, w') \<Rightarrow> Inr (CommonVoiceDataset data, w')))"

subsection \<open>\<open>CustomDataset.__init__\<close>\<close>

definition custom_row :: "string \<Rightarrow> row \<Rightarrow> world \<Rightarrow> py_error + (entry list \<times> world)" where
  "custom_row root d w =
     (case row_get d ''text'' of Inl e \<Rightarrow> Inl e | Inr text \<Rightarrow>
      if text = [] then Inr ([], w)
      else
        case row_get d ''language'' of Inl e \<Rightarrow> Inl e | Inr language \<Rightarrow>
        if language \<noteq> ''EN'' then Inr ([], w)
        else
          case row_get d ''file'' of Inl e \<Rightarrow> Inl e | Inr file \<Rightarrow>
          let row = (path_join root file, text);
              orig_path = path_join3 root ''original'' file;
              wav_path = path_join root file
          in case (if wav_path \<notin> present w then sox_build orig_path wav_path w else Inr w) of
               Inl e \<Rightarrow> Inl e
             | Inr w' \<Rightarrow> Inr ([(wav_path, text)] @ [row], w'))"

definition CustomDataset_init :: "string \<Rightarrow> world \<Rightarrow> py_error + (dataset \<times> world)" where
  "CustomDataset_init root w =
     (let annotations_path = path_join root ''annotations.csv'' in
      case csv_rows w annotations_path of
        None \<Rightarrow> Inl (FileNotFoundError annotations_path)
      | Some rows \<Rightarrow>
          (case rows_loop (custom_row root) rows [] w of
             Inl e \<Rightarrow> Inl e
           | Inr (data, w') \<Rightarrow> Inr (CustomDataset data, w')))"

subsection \<open>\<open>LibriSpeechDataset.__init__\<close>\<close>

text \<open>
  \<open>dict([tuple(x.split(' ', maxsplit=1)) for x in lines])\<close>: every element must have
  two components, a later line with the same key replaces an earlier one.
\<close>

fun dict_from :: "(string \<rightharpoonup> string) \<Rightarrow> string list list \<Rightarrow> py_error + (string \<rightharpoonup> string)" where
  "dict_from m [] = Inr m"
| "dict_from m (t # ts) =
     (case t of
        [k, v] \<Rightarrow> dict_from (m(k \<mapsto> v)) ts
      | _ \<Rightarrow> Inl (ValueError ''dictionary update sequence element has length 1; 2 is required''))"

definition read_transcripts :: "string list \<Rightarrow> py_error + (string \<rightharpoonup> string)" where
  "read_transcripts lines = dict_from Map.empty (map split_first_space lines)"

text \<open>
  The name of the WAV file, \<open>flac_file.replace('.flac', '.wav')\<close>, and the key under
  which the loop looks the file up, \<open>wav_file.replace('.wav', '')\<close>.
\<close>

definition wav_file_of :: "string \<Rightarrow> string" where
  "wav_file_of flac_file = str_replace flac_file ''.flac'' ''.wav''"

definition key_of :: "string \<Rightarrow> string" where
  "key_of flac_file = str_replace (wav_file_of flac_file) ''.wav'' []"

text \<open>
  The inner loop over the names listed in a chapter directory. The conversion comes
  before the lookup in \<open>transcripts\<close>; when either fails the exception leaves the
  constructor and only the error is kept.
\<close>

fun flac_loop ::
  "string \<Rightarrow> (string \<rightharpoonup> string) \<Rightarrow> string list \<Rightarrow> entry list \<Rightarrow> world
     \<Rightarrow> py_error + (entry list \<times> world)" where
  "flac_loop chapter_dir transcripts [] data w = Inr (data, w)"
| "flac_loop chapter_dir transcripts (flac_file # rest) data w =
     (if endswith flac_file ''.flac'' then
        let wav_file = wav_file_of flac_file;
            wav_path = path_join chapter_dir wav_file
        in case (if wav_path \<notin> present w
                 then soundfile_convert chapter_dir wav_file (path_join chapter_dir flac_file) w
                 else Inr w) of
             Inl e \<Rightarrow> Inl e
           | Inr w' \<Rightarrow>
               (case transcripts (key_of flac_file) of
                  None \<Rightarrow> Inl (KeyError (key_of flac_file))
                | Some t \<Rightarrow>
                    flac_loop chapter_dir transcripts rest (data @ [(wav_path, t)]) w')
      else flac_loop chapter_dir transcripts rest data w)"

definition libri_chapter ::
  "string \<Rightarrow> string \<Rightarrow> string \<Rightarrow> entry list \<Rightarrow> world \<Rightarrow> py_error + (entry list \<times> world)" where
  "libri_chapter speaker_id speaker_dir chapter_id data w =
     (let chapter_dir = path_join speaker_dir chapter_id;
          transcript_path = path_join chapter_dir (speaker_id @ ''-'' @ chapter_id @ ''.trans.txt'')
      in case readlines w transcript_path of
           None \<Rightarrow> Inl (FileNotFoundError transcript_path)
         | Some lines \<Rightarrow>
             (case read_transcripts lines of
                Inl e \<Rightarrow> Inl e
              | Inr transcripts \<Rightarrow>
                  (case listdir w chapter_dir of
                     None \<Rightarrow> Inl (FileNotFoundError chapter_dir)
                   | Some names \<Rightarrow> flac_loop chapter_dir transcripts names data w)))"

fun chapter_loop ::
  "string \<Rightarrow> string \<Rightarrow> string list \<Rightarrow> entry list \<Rightarrow> world \<Rightarrow> py_error + (entry list \<times> world)" where
  "chapter_loop speaker_id speaker_dir [] data w = Inr (data, w)"
| "chapter_loop speaker_id speaker_dir (chapter_id # rest) data w =
     (case libri_chapter speaker_id speaker_dir chapter_id data w of
        Inl e \<Rightarrow> Inl e
      | Inr (data', w') \<Rightarrow> chapter_loop speaker_id speaker_dir rest data' w')"

definition libri_speaker ::
  "string \<Rightarrow> string \<Rightarrow> entry list \<Rightarrow> world \<Rightarrow> py_error + (entry list \<times> world)" where
  "libri_speaker root speaker_id data w =
     (let speaker_dir = path_join root speaker_id in
      case listdir w speaker_dir of
        None \<Rightarrow> Inl (FileNotFoundError speaker_dir)
      | Some chapter_ids \<Rightarrow> chapter_loop speaker_id speaker_dir chapter_ids data w)"

fun speaker_loop ::
  "string \<Rightarrow> string list \<Rightarrow> entry list \<Rightarrow> world \<Rightarrow> py_error + (entry list \<times> world)" where
  "speaker_loop root [] data w = Inr (data, w)"
| "speaker_loop root (speaker_id # rest) data w =
     (case libri_speaker root speaker_id data w of
        Inl e \<Rightarrow> Inl e
      | Inr (data', w') \<Rightarrow> speaker_loop root rest data' w')"

definition LibriSpeechDataset_init :: "string \<Rightarrow> world \<Rightarrow> py_error + (dataset \<times> world)" where
  "LibriSpeechDataset_init root w =
     (case listdir w root of
        None \<Rightarrow> Inl (FileNotFoundError root)
      | Some speaker_ids \<Rightarrow>
          (case speaker_loop root speaker_ids [] w of
             Inl e \<Rightarrow> Inl e
           | Inr (data, w') \<Rightarrow> Inr (LibriSpeechDataset data, w')))"

subsection \<open>The factory \<open>Dataset.create\<close>\<close>

text \<open>\<open>cls\<close> is the name of the class on which the class method is called.\<close>

definition create :: "string \<Rightarrow> string \<Rightarrow> string \<Rightarrow> world \<Rightarrow> py_error + (dataset \<times> world)" where
  "create cls dataset_type root w =
     (if dataset_type = ''commonvoice'' then CommonVoiceDataset_init root w
      else if dataset_type = ''librispeech'' then LibriSpeechDataset_init root w
      else if dataset_type = ''custom'' then CustomDataset_init root w
      else Inl (ValueError (''cannot create '' @ cls @ '' of type '' @ [CHR 0x27]
                  @ dataset_type @ [CHR 0x27])))"

subsection \<open>Method calls on a constructed dataset\<close>

text \<open>
  \<open>size_seconds\<close> and \<open>size_hours\<close> read every catalogued file through \<open>get\<close>. The
  quotient by the sample rate is kept exact, as the pair of the summed sample counts
  and the divisor; the rounding of Python's floats is not part of the model.
\<close>

fun read_sizes :: "dataset \<Rightarrow> world \<Rightarrow> int list \<Rightarrow> py_error + nat list" where
  "read_sizes d w [] = Inr []"
| "read_sizes d w (i # is) =
     (case get d i of
        Inl e \<Rightarrow> Inl e
      | Inr (path, text) \<Rightarrow>
          (case soundfile_read path w of
             Inl e \<Rightarrow> Inl e
           | Inr n \<Rightarrow>
               (case read_sizes d w is of
                  Inl e \<Rightarrow> Inl e
                | Inr ns \<Rightarrow> Inr (n # ns))))"

definition range_size :: "dataset \<Rightarrow> int list" where
  "range_size d = map int [0 ..< nat (size_ds d)]"

definition size_seconds :: "dataset \<Rightarrow> world \<Rightarrow> py_error + (nat \<times> nat)" where
  "size_seconds d w =
     (case read_sizes d w (range_size d) of
        Inl e \<Rightarrow> Inl e
      | Inr ns \<Rightarrow> Inr (sum_list ns, 16000))"

definition size_hours :: "dataset \<Rightarrow> world \<Rightarrow> py_error + (nat \<times> nat)" where
  "size_hours d w =
     (case read_sizes d w (range_size d) of
        Inl e \<Rightarrow> Inl e
      | Inr ns \<Rightarrow> Inr (sum_list ns, 16000 * 3600))"

subsection \<open>Dataset objects in the store\<close>

text \<open>
  A constructed dataset is a Python object whose attribute \<open>_data\<close> refers to a list
  object. Objects are mutable: \<open>setattr\<close> rebinds an attribute and \<open>list_append\<close>
  changes a list in place, for every holder of a reference to it. The store maps
  (object, attribute name) to values and addresses of list objects to their contents;
  a catalog entry is a tuple of two strings. An action is a step of the program on the
  store: what it returns or raises, and the store it leaves.
\<close>

datatype py_val = VNone | VInt int | VStr string | VTuple "py_val list" | VFrac "nat \<times> nat"
  | VRef nat

record store =
  attrs :: "nat \<times> string \<Rightarrow> py_val option"
  lists :: "nat \<Rightarrow> py_val list option"
  class_of :: "nat \<Rightarrow> string option"

type_synonym action = "store \<Rightarrow> (py_error + py_val) \<times> store"

definition bind_st :: "action \<Rightarrow> (py_val \<Rightarrow> action) \<Rightarrow> action" where
  "bind_st m f = (\<lambda>s. case m s of (Inl e, s') \<Rightarrow> (Inl e, s') | (Inr v, s') \<Rightarrow> f v s')"

text \<open>\<open>obj.name\<close>, \<open>obj.name = v\<close>, \<open>len(x)\<close>, \<open>x[i]\<close> and \<open>x.append(v)\<close>.\<close>

definition getattr :: "nat \<Rightarrow> string \<Rightarrow> action" where
  "getattr obj name =
     (\<lambda>s. case attrs s (obj, name) of
             None \<Rightarrow> (Inl (AttributeError name), s)
           | Some v \<Rightarrow> (Inr v, s))"

definition setattr :: "nat \<Rightarrow> string \<Rightarrow> py_val \<Rightarrow> action" where
  "setattr obj name v = (\<lambda>s. (Inr VNone, s\<lparr>attrs := (attrs s)((obj, name) \<mapsto> v)\<rparr>))"

fun list_of :: "store \<Rightarrow> py_val \<Rightarrow> py_val list option" where
  "list_of s (VRef r) = lists s r"
| "list_of s v = None"

definition list_len :: "py_val \<Rightarrow> action" where
  "list_len x =
     (\<lambda>s. case list_of s x of
             None \<Rightarrow> (Inl TypeError, s)
           | Some xs \<Rightarrow> (Inr (VInt (int (length xs))), s))"

fun list_getitem :: "py_val \<Rightarrow> py_val \<Rightarrow> action" where
  "list_getitem x (VInt i) =
     (\<lambda>s. case list_of s x of
             None \<Rightarrow> (Inl TypeError, s)
           | Some xs \<Rightarrow> (list_index xs i, s))"
| "list_getitem x v = (\<lambda>s. (Inl TypeError, s))"

fun list_append :: "py_val \<Rightarrow> py_val \<Rightarrow> action" where
  "list_append (VRef r) v =
     (\<lambda>s. case lists s r of
             None \<Rightarrow> (Inl TypeError, s)
           | Some xs \<Rightarrow> (Inr VNone, s\<lparr>lists := (lists s)(r \<mapsto> xs @ [v])\<rparr>))"
| "list_append x v = (\<lambda>s. (Inl (AttributeError ''append''), s))"

text \<open>
  The methods, on the object at address \<open>self\<close>. The three classes of the source
  define \<open>size\<close>, \<open>get\<close> and \<open>__str__\<close>; an object of another class has the methods of
  \<open>Dataset\<close>, which raise \<open>NotImplementedError\<close>.
\<close>

definition label_of :: "string \<Rightarrow> string option" where
  "label_of cls =
     (if cls = ''CommonVoiceDataset'' then Some ''Common Voice Dataset''
      else if cls = ''LibriSpeechDataset'' then Some ''LibriSpeech Dataset''
      else if cls = ''CustomDataset'' then Some ''Custom Dataset''
      else None)"

definition concrete :: "store \<Rightarrow> nat \<Rightarrow> bool" where
  "concrete s self = (case class_of s self of None \<Rightarrow> False | Some cls \<Rightarrow> label_of cls \<noteq> None)"

definition size_m :: "nat \<Rightarrow> action" where
  "size_m self =
     (\<lambda>s. if concrete s self then bind_st (getattr self ''_data'') list_len s
           else (Inl NotImplementedError, s))"

definition get_m :: "nat \<Rightarrow> py_val \<Rightarrow> action" where
  "get_m self index =
     (\<lambda>s. if concrete s self
           then bind_st (getattr self ''_data'') (\<lambda>d. list_getitem d index) s
           else (Inl NotImplementedError, s))"

definition str_m :: "nat \<Rightarrow> action" where
  "str_m self =
     (\<lambda>s. case class_of s self of
             None \<Rightarrow> (Inl NotImplementedError, s)
           | Some cls \<Rightarrow>
               (case label_of cls of
                  None \<Rightarrow> (Inl NotImplementedError, s)
                | Some l \<Rightarrow> (Inr (VStr l), s)))"

definition all_data_m :: "nat \<Rightarrow> action" where
  "all_data_m self =
     (\<lambda>s. if class_of s self = Some ''CustomDataset'' then getattr self ''_data'' s
           else (Inl NotImplementedError, s))"

text \<open>
  \<open>[soundfile.read(self.get(i)[0])[0].size ... for i in range(self.size())]\<close>, summed
  and divided by \<open>divisor\<close>.
\<close>

fun sizes_m :: "nat \<Rightarrow> world \<Rightarrow> int list \<Rightarrow> store \<Rightarrow> (py_error + nat list) \<times> store" where
  "sizes_m self w [] s = (Inr [], s)"
| "sizes_m self w (i # is) s =
     (case get_m self (VInt i) s of
        (Inl e, s1) \<Rightarrow> (Inl e, s1)
      | (Inr v, s1) \<Rightarrow>
          (case v of
             VTuple (VStr path # rest) \<Rightarrow>
               (case soundfile_read path w of
                  Inl e \<Rightarrow> (Inl e, s1)
                | Inr n \<Rightarrow>
                    (case sizes_m self w is s1 of
                       (Inl e, s2) \<Rightarrow> (Inl e, s2)
                     | (Inr ns, s2) \<Rightarrow> (Inr (n # ns), s2)))
           | _ \<Rightarrow> (Inl TypeError, s1)))"

definition duration_m :: "nat \<Rightarrow> nat \<Rightarrow> world \<Rightarrow> action" where
  "duration_m divisor self w =
     (\<lambda>s. case size_m self s of
             (Inl e, s1) \<Rightarrow> (Inl e, s1)
           | (Inr v, s1) \<Rightarrow>
               (case v of
                  VInt n \<Rightarrow>
                    (case sizes_m self w (map int [0 ..< nat n]) s1 of
                       (Inl e, s2) \<Rightarrow> (Inl e, s2)
                     | (Inr ns, s2) \<Rightarrow> (Inr (VFrac (sum_list ns, divisor)), s2))
                | _ \<Rightarrow> (Inl TypeError, s1)))"

definition size_seconds_m :: "nat \<Rightarrow> world \<Rightarrow> action" where
  "size_seconds_m self w = duration_m 16000 self w"

definition size_hours_m :: "nat \<Rightarrow> world \<Rightarrow> action" where
  "size_hours_m self w = duration_m (16000 * 3600) self w"

text \<open>A call of one of the read accessors, and a sequence of such calls.\<close>

datatype call = Size | Get int | SizeSeconds | SizeHours | Str

fun call_method :: "call \<Rightarrow> nat \<Rightarrow> world \<Rightarrow> action" where
  "call_method Size self w = size_m self"
| "call_method (Get index) self w = get_m self (VInt index)"
| "call_method SizeSeconds self w = size_seconds_m self w"
| "call_method SizeHours self w = size_hours_m self w"
| "call_method Str self w = str_m self"

fun call_methods :: "call list \<Rightarrow> nat \<Rightarrow> world \<Rightarrow> store \<Rightarrow> store" where
  "call_methods [] self w s = s"
| "call_methods (c # cs) self w s = call_methods cs self w (snd (call_method c self w s))"

text \<open>A catalog entry as a value: the tuple of its path and its transcript.\<close>

definition entry_val :: "entry \<Rightarrow> py_val" where
  "entry_val e = VTuple [VStr (fst e), VStr (snd e)]"

text \<open>
  What a call answers on an object that is the dataset \<open>d\<close>, by the accessors of the
  catalog of above.
\<close>

fun answer :: "call \<Rightarrow> dataset \<Rightarrow> world \<Rightarrow> py_error + py_val" where
  "answer Size d w = Inr (VInt (size_ds d))"
| "answer (Get index) d w = map_sum id entry_val (get d index)"
| "answer SizeSeconds d w = map_sum id VFrac (size_seconds d w)"
| "answer SizeHours d w = map_sum id VFrac (size_hours d w)"
| "answer Str d w = Inr (VStr (str_ds d))"

text \<open>
  What the constructors do to the store: \<open>self._data = []\<close> with a new list at the
  address \<open>r\<close>, then one \<open>append\<close> for every entry of the catalog.
\<close>

fun class_name :: "dataset \<Rightarrow> string" where
  "class_name (CommonVoiceDataset xs) = ''CommonVoiceDataset''"
| "class_name (LibriSpeechDataset xs) = ''LibriSpeechDataset''"
| "class_name (CustomDataset xs) = ''CustomDataset''"

definition append_all :: "nat \<Rightarrow> entry list \<Rightarrow> store \<Rightarrow> store" where
  "append_all r es s = fold (\<lambda>e s. snd (list_append (VRef r) (entry_val e) s)) es s"

definition store_dataset :: "dataset \<Rightarrow> nat \<Rightarrow> nat \<Rightarrow> store \<Rightarrow> store" where
  "store_dataset d self r s =
     append_all r (data_of d)
       (snd (setattr self ''_data'' (VRef r)
          (s\<lparr>lists := (lists s)(r \<mapsto> []), class_of := (class_of s)(self \<mapsto> class_name d)\<rparr>)))"

text \<open>\<open>holds s self d\<close>: the object at \<open>self\<close> is the dataset \<open>d\<close>.\<close>

definition holds :: "store \<Rightarrow> nat \<Rightarrow> dataset \<Rightarrow> bool" where
  "holds s self d =
     (class_of s self = Some (class_name d) \<and>
      (case attrs s (self, ''_data'') of
         None \<Rightarrow> False
       | Some v \<Rightarrow> list_of s v = Some (map entry_val (data_of d))))"

definition empty_store :: store where
  "empty_store = \<lparr>attrs = (\<lambda>x. None), lists = (\<lambda>r. None), class_of = (\<lambda>a. None)\<rparr>"

subsection \<open>Example corpora\<close>

definition empty_world :: world where
  "empty_world = \<lparr>present = {}, csv_rows = (\<lambda>p. None), readlines = (\<lambda>p. None),
     listdir = (\<lambda>p. None), samples = (\<lambda>p. None), conversions = []\<rparr>"

text \<open>
  A custom corpus under \<open>/data\<close>: one English row, one French row, one English row
  without text.
\<close>

definition custom_example :: world where
  "custom_example = empty_world\<lparr>
     present := {''/data/original/a.wav'', ''/data/original/b.wav''},
     csv_rows := (\<lambda>p. if p = ''/data/annotations.csv''
        then Some [[(''file'', ''a.wav''), (''text'', ''hi''), (''language'', ''EN'')],
                   [(''file'', ''b.wav''), (''text'', ''salut''), (''language'', ''FR'')],
                   [(''file'', ''c.wav''), (''text'', []), (''language'', ''EN'')]]
        else None)\<rparr>"

subsection \<open>What the claims say of the Common Voice rows\<close>

text \<open>The value of a column, and a vote count read as \<open>int\<close> reads it.\<close>

definition row_field :: "row \<Rightarrow> string \<Rightarrow> string" where
  "row_field r k = (case map_of r k of None \<Rightarrow> [] | Some v \<Rightarrow> v)"

definition row_int :: "row \<Rightarrow> string \<Rightarrow> int option" where
  "row_int r k =
     (case map_of r k of
        None \<Rightarrow> None
      | Some v \<Rightarrow> (case py_int v of Inl e \<Rightarrow> None | Inr n \<Rightarrow> Some n))"

text \<open>
  The rows kept: at least two up-votes, no positive count of down-votes, a text that
  is not empty. The entry of a kept row: the joined path with \<open>.mp3\<close> replaced, and the
  text in lower case.
\<close>

definition cv_retained :: "row \<Rightarrow> bool" where
  "cv_retained r =
     (case (row_int r ''up_votes'', row_int r ''down_votes'', map_of r ''text'') of
        (Some up_votes, Some down_votes, Some text) \<Rightarrow>
           2 \<le> up_votes \<and> down_votes \<le> 0 \<and> text \<noteq> []
      | _ \<Rightarrow> False)"

definition cv_entry :: "string \<Rightarrow> row \<Rightarrow> entry" where
  "cv_entry root r =
     (str_replace (path_join root (row_field r ''filename'')) ''.mp3'' ''.wav'',
      lower (row_field r ''text''))"

text \<open>
  A Common Voice corpus under \<open>/cv\<close>: an accepted row, a row with one up-vote, a row
  whose down-vote count reads \<open>-1\<close>, a row without text.
\<close>

definition cv_example :: world where
  "cv_example = empty_world\<lparr>
     present := {''/cv/clips/s1.mp3'', ''/cv/clips/s3.mp3''},
     csv_rows := (\<lambda>p. if p = ''/cv/cv-valid-test.csv''
        then Some [[(''filename'', ''clips/s1.mp3''), (''text'', ''Hello World''),
                      (''up_votes'', ''2''), (''down_votes'', ''0'')],
                   [(''filename'', ''clips/s2.mp3''), (''text'', ''x''),
                      (''up_votes'', ''1''), (''down_votes'', ''0'')],
                   [(''filename'', ''clips/s3.mp3''), (''text'', ''Dissent''),
                      (''up_votes'', ''3''), (''down_votes'', ''-1'')],
                   [(''filename'', ''clips/s4.mp3''), (''text'', []),
                      (''up_votes'', ''5''), (''down_votes'', ''0'')]]
        else None)\<rparr>"

text \<open>A Common Voice corpus kept under a directory named \<open>/data/voice.mp3\<close>.\<close>

definition cv_mp3_directory :: world where
  "cv_mp3_directory = empty_world\<lparr>
     present := {''/data/voice.mp3/clips/s1.mp3''},
     csv_rows := (\<lambda>p. if p = ''/data/voice.mp3/cv-valid-test.csv''
        then Some [[(''filename'', ''clips/s1.mp3''), (''text'', ''hello''),
                      (''up_votes'', ''2''), (''down_votes'', ''0'')]]
        else None)\<rparr>"

text \<open>
  A LibriSpeech corpus under \<open>/ls\<close>: speaker \<open>19\<close>, chapter \<open>198\<close>, one utterance.
\<close>

definition libri_example :: world where
  "libri_example = empty_world\<lparr>
     present := {''/ls/19/198/19-198-0000.flac'', ''/ls/19/198/19-198.trans.txt''},
     samples := (\<lambda>p. if p = ''/ls/19/198/19-198-0000.flac'' then Some 5 else None),
     readlines := (\<lambda>p. if p = ''/ls/19/198/19-198.trans.txt''
        then Some [''19-198-0000 NORTHANGER ABBEY'' @ [CHR 0x0A]] else None),
     listdir := (\<lambda>p. if p = ''/ls'' then Some [''19'']
        else if p = ''/ls/19'' then Some [''198'']
        else if p = ''/ls/19/198'' then Some [''19-198-0000.flac'', ''19-198.trans.txt'']
        else None)\<rparr>"

subsection \<open>What a LibriSpeech corpus holds, read without running the builder\<close>

text \<open>
  A directory entry has a name that is not empty and has no \<open>/\<close> in it; \<open>os.listdir\<close>
  yields such names only.
\<close>

definition is_name :: "string \<Rightarrow> bool" where
  "is_name n = (n \<noteq> [] \<and> CHR ''/'' \<notin> set n)"

definition wf_listings :: "world \<Rightarrow> bool" where
  "wf_listings w = (\<forall>p ns. listdir w p = Some ns \<longrightarrow> (\<forall>n\<in>set ns. is_name n))"

text \<open>
  The entries of the \<open>.flac\<close> files among \<open>names\<close>, or the first \<open>KeyError\<close>; the entries
  of a list of items, each giving entries or an error.
\<close>

fun flac_entries :: "string \<Rightarrow> (string \<rightharpoonup> string) \<Rightarrow> string list \<Rightarrow> py_error + entry list" where
  "flac_entries chapter_dir transcripts [] = Inr []"
| "flac_entries chapter_dir transcripts (f # rest) =
     (if endswith f ''.flac'' then
        (case transcripts (key_of f) of
           None \<Rightarrow> Inl (KeyError (key_of f))
         | Some t \<Rightarrow>
             (case flac_entries chapter_dir transcripts rest of
                Inl e \<Rightarrow> Inl e
              | Inr es \<Rightarrow> Inr ((path_join chapter_dir (wav_file_of f), t) # es)))
      else flac_entries chapter_dir transcripts rest)"

fun collect :: "('a \<Rightarrow> py_error + entry list) \<Rightarrow> 'a list \<Rightarrow> py_error + entry list" where
  "collect g [] = Inr []"
| "collect g (x # xs) =
     (case g x of
        Inl e \<Rightarrow> Inl e
      | Inr es \<Rightarrow> (case collect g xs of Inl e \<Rightarrow> Inl e | Inr es' \<Rightarrow> Inr (es @ es')))"

text \<open>
  The catalog that the files and listings of a fixed world determine, with the errors
  in the order in which the builder meets them.
\<close>

definition plan_chapter :: "world \<Rightarrow> string \<Rightarrow> string \<Rightarrow> string \<Rightarrow> py_error + entry list" where
  "plan_chapter w speaker_id speaker_dir chapter_id =
     (let chapter_dir = path_join speaker_dir chapter_id;
          transcript_path = path_join chapter_dir (speaker_id @ ''-'' @ chapter_id @ ''.trans.txt'')
      in case readlines w transcript_path of
           None \<Rightarrow> Inl (FileNotFoundError transcript_path)
         | Some lines \<Rightarrow>
             (case read_transcripts lines of
                Inl e \<Rightarrow> Inl e
              | Inr transcripts \<Rightarrow>
                  (case listdir w chapter_dir of
                     None \<Rightarrow> Inl (FileNotFoundError chapter_dir)
                   | Some names \<Rightarrow> flac_entries chapter_dir transcripts names)))"

definition plan_speaker :: "world \<Rightarrow> string \<Rightarrow> string \<Rightarrow> py_error + entry list" where
  "plan_speaker w root speaker_id =
     (let speaker_dir = path_join root speaker_id in
      case listdir w speaker_dir of
        None \<Rightarrow> Inl (FileNotFoundError speaker_dir)
      | Some chapter_ids \<Rightarrow> collect (plan_chapter w speaker_id speaker_dir) chapter_ids)"

definition libri_plan :: "string \<Rightarrow> world \<Rightarrow> py_error + entry list" where
  "libri_plan root w =
     (case listdir w root of
        None \<Rightarrow> Inl (FileNotFoundError root)
      | Some speaker_ids \<Rightarrow> collect (plan_speaker w root) speaker_ids)"

text \<open>
  \<open>chapter_path root p\<close>: \<open>p\<close> is the path of a chapter directory under \<open>root\<close>.
  \<open>later root w0 w\<close>: \<open>w\<close> has the CSV and transcript files of \<open>w0\<close> and its listings, but for
  names that do not end in \<open>.flac\<close> added at the end of listings of chapter directories.
\<close>

definition chapter_path :: "string \<Rightarrow> string \<Rightarrow> bool" where
  "chapter_path root p =
     (\<exists>s c. is_name s \<and> is_name c \<and> p = path_join (path_join root s) c)"

definition later :: "string \<Rightarrow> world \<Rightarrow> world \<Rightarrow> bool" where
  "later root w0 w =
     (csv_rows w = csv_rows w0 \<and> readlines w = readlines w0 \<and>
      (\<forall>p. listdir w p = listdir w0 p \<or>
           (chapter_path root p \<and>
            (\<exists>old new. listdir w0 p = Some old \<and> listdir w p = Some (old @ new) \<and>
                (\<forall>n\<in>set new. \<not> endswith n ''.flac'')))))"

text \<open>
  \<open>readable w p\<close>: the audio file \<open>p\<close> exists and can be decoded.
  \<open>flacs_readable w0 w\<close>: every \<open>.flac\<close> file that a listing of \<open>w0\<close> names is
  readable in \<open>w\<close>.
\<close>

definition readable :: "world \<Rightarrow> string \<Rightarrow> bool" where
  "readable w p = (p \<in> present w \<and> samples w p \<noteq> None)"

definition flacs_readable :: "world \<Rightarrow> world \<Rightarrow> bool" where
  "flacs_readable w0 w =
     (\<forall>cd names. listdir w0 cd = Some names \<longrightarrow>
        (\<forall>f\<in>set names. endswith f ''.flac'' \<longrightarrow> readable w (path_join cd f)))"

text \<open>
  \<open>follows root w0 w data plan run\<close>, for a run started in \<open>w\<close> with the catalog
  \<open>data\<close>: a run that returns has appended the planned entries and left a world later
  than \<open>w0\<close>, in which every planned WAV file is present; where they all were present
  already the run returns and leaves \<open>w\<close> as it is; and where the \<open>.flac\<close> files are
  readable the run ends as \<open>plan\<close> says, with the same error or with its entries.
\<close>

definition follows ::
  "string \<Rightarrow> world \<Rightarrow> world \<Rightarrow> entry list \<Rightarrow> py_error + entry list
     \<Rightarrow> py_error + (entry list \<times> world) \<Rightarrow> bool" where
  "follows root w0 w data plan run =
     ((\<forall>data' w'. run = Inr (data', w') \<longrightarrow>
         (\<exists>es. plan = Inr es \<and> data' = data @ es \<and> later root w0 w' \<and>
            present w \<subseteq> present w' \<and> (\<forall>p. readable w p \<longrightarrow> readable w' p) \<and>
            fst ` set es \<subseteq> present w')) \<and>
      (\<forall>es. plan = Inr es \<and> fst ` set es \<subseteq> present w \<longrightarrow> run = Inr (data @ es, w)) \<and>
      (flacs_readable w0 w \<longrightarrow>
         (case plan of
            Inl e \<Rightarrow> run = Inl e
          | Inr es \<Rightarrow> (\<exists>w'. run = Inr (data @ es, w')))))"















section \<open>Properties\<close>

subsection \<open>The builders return their own variant\<close>

lemma CommonVoiceDataset_init_variant:
  "CommonVoiceDataset_init root w = Inr (d, w') \<Longrightarrow> \<exists>xs. d = CommonVoiceDataset xs"
  by (auto simp: CommonVoiceDataset_init_def Let_def split: option.splits sum.splits)

lemma LibriSpeechDataset_init_variant:
  "LibriSpeechDataset_init root w = Inr (d, w') \<Longrightarrow> \<exists>xs. d = LibriSpeechDataset xs"
  by (auto simp: LibriSpeechDataset_init_def split: option.splits sum.splits)

lemma CustomDataset_init_variant:
  "CustomDataset_init root w = Inr (d, w') \<Longrightarrow> \<exists>xs. d = CustomDataset xs"
  by (auto simp: CustomDataset_init_def Let_def split: option.splits sum.splits)

lemma custom_example_run:
  "CustomDataset_init ''/data'' custom_example =
     Inr (CustomDataset [(''/data/a.wav'', ''hi''), (''/data/a.wav'', ''hi'')],
          custom_example\<lparr>present := insert ''/data/a.wav'' (present custom_example),
            conversions := [(''/data/original/a.wav'', ''/data/a.wav'')]\<rparr>)"
  by (simp add: CustomDataset_init_def custom_example_def empty_world_def path_join_def
      startswith_def endswith_def custom_row_def row_get_def sox_build_def path_join3_def Let_def)

subsection \<open>Custom builder: entries per row\<close>

text \<open>
  C1. The claim asks for exactly one catalog entry per accepted row of
  \<open>annotations.csv\<close>. On the example corpus, whose only accepted row is the first, the
  constructor leaves two equal entries: the loop body appends the pair, then appends
  the tuple \<open>row\<close> again.
\<close>

theorem custom_init_appends_twice:
  "map_sum id (data_of \<circ> fst) (CustomDataset_init ''/data'' custom_example) =
     Inr [(''/data/a.wav'', ''hi''), (''/data/a.wav'', ''hi'')]"
  by (simp add: custom_example_run)

subsection \<open>Indexed access\<close>

text \<open>
  C3, as the claim states it, fails: the index \<open>-1\<close> is outside \<open>[0, size())\<close> and
  \<open>get\<close> returns the last entry.
\<close>

theorem get_negative_index_counterexample:
  "(- 1 :: int) \<notin> {0 ..< size_ds (CustomDataset [(''/data/a.wav'', ''hi'')])} \<and>
   get (CustomDataset [(''/data/a.wav'', ''hi'')]) (- 1) = Inr (''/data/a.wav'', ''hi'')"
  by (simp add: list_index_def)

text \<open>
  C3, amended. For every variant: an index in \<open>[0, size())\<close> returns the entry at that
  position; an index in \<open>[-size(), 0)\<close> returns the entry at position \<open>index + size()\<close>;
  every other index raises \<open>IndexError\<close>.
\<close>

theorem get_index:
  "(0 \<le> i \<and> i < size_ds d \<longrightarrow> get d i = Inr (data_of d ! nat i)) \<and>
   (- size_ds d \<le> i \<and> i < 0 \<longrightarrow> get d i = Inr (data_of d ! nat (i + size_ds d))) \<and>
   (i < - size_ds d \<or> size_ds d \<le> i \<longrightarrow> get d i = Inl IndexError)"
  by (cases d) (auto simp: list_index_def Let_def)

theorem get_index_witness:
  "get (LibriSpeechDataset [(''a.wav'', ''A''), (''b.wav'', ''B''), (''c.wav'', ''C'')]) 1
     = Inr (''b.wav'', ''B'') \<and>
   get (LibriSpeechDataset [(''a.wav'', ''A''), (''b.wav'', ''B''), (''c.wav'', ''C'')]) (- 1)
     = Inr (''c.wav'', ''C'') \<and>
   get (LibriSpeechDataset [(''a.wav'', ''A''), (''b.wav'', ''B''), (''c.wav'', ''C'')]) 3
     = Inl IndexError \<and>
   get (LibriSpeechDataset [(''a.wav'', ''A''), (''b.wav'', ''B''), (''c.wav'', ''C'')]) (- 4)
     = Inl IndexError"
  using
    get_index [of 1 "LibriSpeechDataset [(''a.wav'', ''A''), (''b.wav'', ''B''), (''c.wav'', ''C'')]"]
    get_index [of "- 1" "LibriSpeechDataset [(''a.wav'', ''A''), (''b.wav'', ''B''), (''c.wav'', ''C'')]"]
    get_index [of 3 "LibriSpeechDataset [(''a.wav'', ''A''), (''b.wav'', ''B''), (''c.wav'', ''C'')]"]
    get_index [of "- 4" "LibriSpeechDataset [(''a.wav'', ''A''), (''b.wav'', ''B''), (''c.wav'', ''C'')]"]
  by simp

subsection \<open>The factory\<close>

text \<open>
  C5. \<open>create\<close> hands the three recognised type names to the builder of that type, so
  it returns what that builder returns; a dataset it returns is of the variant named
  and carries that variant's fixed label; for every other type name it raises
  \<open>ValueError\<close> with the message \<open>cannot create <cls> of type '<dataset_type>'\<close>.
\<close>

theorem create_factory:
  "create cls ''commonvoice'' root w = CommonVoiceDataset_init root w \<and>
   create cls ''librispeech'' root w = LibriSpeechDataset_init root w \<and>
   create cls ''custom'' root w = CustomDataset_init root w \<and>
   (create cls dataset_type root w = Inr (d, w') \<longrightarrow>
      (dataset_type = ''commonvoice'' \<and> (\<exists>xs. d = CommonVoiceDataset xs)
         \<and> str_ds d = ''Common Voice Dataset'') \<or>
      (dataset_type = ''librispeech'' \<and> (\<exists>xs. d = LibriSpeechDataset xs)
         \<and> str_ds d = ''LibriSpeech Dataset'') \<or>
      (dataset_type = ''custom'' \<and> (\<exists>xs. d = CustomDataset xs)
         \<and> str_ds d = ''Custom Dataset'')) \<and>
   (dataset_type \<notin> {''commonvoice'', ''librispeech'', ''custom''} \<longrightarrow>
      create cls dataset_type root w =
        Inl (ValueError (''cannot create '' @ cls @ '' of type '' @ [CHR 0x27]
               @ dataset_type @ [CHR 0x27])))"
proof -
  have "create cls dataset_type root w = Inr (d, w') \<Longrightarrow> dataset_type = ''commonvoice''
      \<Longrightarrow> (\<exists>xs. d = CommonVoiceDataset xs) \<and> str_ds d = ''Common Voice Dataset''"
    using CommonVoiceDataset_init_variant [of root w d w'] by (auto simp: create_def)
  moreover have "create cls dataset_type root w = Inr (d, w') \<Longrightarrow> dataset_type = ''librispeech''
      \<Longrightarrow> (\<exists>xs. d = LibriSpeechDataset xs) \<and> str_ds d = ''LibriSpeech Dataset''"
    using LibriSpeechDataset_init_variant [of root w d w'] by (auto simp: create_def)
  moreover have "create cls dataset_type root w = Inr (d, w') \<Longrightarrow> dataset_type = ''custom''
      \<Longrightarrow> (\<exists>xs. d = CustomDataset xs) \<and> str_ds d = ''Custom Dataset''"
    using CustomDataset_init_variant [of root w d w'] by (auto simp: create_def)
  moreover have "create cls dataset_type root w = Inr (d, w') \<Longrightarrow>
      dataset_type = ''commonvoice'' \<or> dataset_type = ''librispeech'' \<or> dataset_type = ''custom''"
    by (auto simp: create_def split: if_splits)
  ultimately show ?thesis
    by (auto simp: create_def)
qed

theorem create_factory_witness:
  "map_sum id (str_ds \<circ> fst) (create ''Dataset'' ''custom'' ''/data'' custom_example)
     = Inr ''Custom Dataset'' \<and>
   ''flac'' \<notin> {''commonvoice'', ''librispeech'', ''custom''} \<and>
   create ''Dataset'' ''flac'' ''/data'' custom_example =
     Inl (ValueError (''cannot create Dataset of type '' @ [CHR 0x27] @ ''flac'' @ [CHR 0x27]))"
proof -
  let ?d = "CustomDataset [(''/data/a.wav'', ''hi''), (''/data/a.wav'', ''hi'')]"
  let ?w = "custom_example\<lparr>present := insert ''/data/a.wav'' (present custom_example),
            conversions := [(''/data/original/a.wav'', ''/data/a.wav'')]\<rparr>"
  have run: "create ''Dataset'' ''custom'' ''/data'' custom_example = Inr (?d, ?w)"
    by (simp add: create_def custom_example_run)
  have "str_ds ?d = ''Custom Dataset''"
    using create_factory [of "''Dataset''" "''/data''" custom_example "''custom''" ?d ?w] run
    by simp
  moreover have "''flac'' \<notin> {''commonvoice'', ''librispeech'', ''custom''}"
    by simp
  moreover have "create ''Dataset'' ''flac'' ''/data'' custom_example =
     Inl (ValueError (''cannot create Dataset of type '' @ [CHR 0x27] @ ''flac'' @ [CHR 0x27]))"
    using create_factory [of "''Dataset''" "''/data''" custom_example "''flac''"] by simp
  ultimately show ?thesis
    using run by simp
qed

subsection \<open>Bulk access\<close>

text \<open>
  C10. \<open>all_data\<close> raises \<open>NotImplementedError\<close> on a Common Voice and on a LibriSpeech
  dataset; on a custom dataset it returns the catalog, whose length is \<open>size()\<close> and
  whose entries, in order, are those \<open>get\<close> returns at \<open>0, ..., size() - 1\<close>.
\<close>

theorem all_data_variants:
  "all_data (CommonVoiceDataset xs) = Inl NotImplementedError \<and>
   all_data (LibriSpeechDataset xs) = Inl NotImplementedError \<and>
   all_data (CustomDataset xs) = Inr (data_of (CustomDataset xs)) \<and>
   size_ds (CustomDataset xs) = int (length (data_of (CustomDataset xs))) \<and>
   map (get (CustomDataset xs)) (range_size (CustomDataset xs)) = map Inr xs"
proof -
  have "get (CustomDataset xs) = list_index xs"
    by (rule ext) simp
  moreover have "map (list_index xs) (map int [0 ..< length xs]) = map Inr xs"
    by (rule nth_equalityI) (simp_all add: list_index_def)
  ultimately show ?thesis
    by (simp add: range_size_def)
qed

subsection \<open>Common Voice builder: the quality gate\<close>

lemma lower_Nil_iff: "lower t = [] \<longleftrightarrow> t = []"
  by (simp add: lower_def)

lemma cv_row_appends:
  assumes "cv_row root r w = Inr (es, w')"
  shows "es = (if cv_retained r then [cv_entry root r] else [])"
  using assms
  by (auto simp: cv_row_def cv_retained_def cv_entry_def row_get_def row_int_def row_field_def
        Let_def lower_Nil_iff
      split: option.splits sum.splits if_splits)

lemma rows_loop_cv:
  "rows_loop (cv_row root) rows data w = Inr (data', w') \<Longrightarrow>
     data' = data @ map (cv_entry root) (filter cv_retained rows)"
proof (induction rows arbitrary: data w)
  case Nil
  then show ?case by simp
next
  case (Cons r rows)
  from Cons.prems obtain es w1 where
    row: "cv_row root r w = Inr (es, w1)" and
    rest: "rows_loop (cv_row root) rows (data @ es) w1 = Inr (data', w')"
    by (auto split: sum.splits)
  from Cons.IH [OF rest] cv_row_appends [OF row] show ?case
    by simp
qed

lemma cv_example_run:
  "map_sum id (data_of \<circ> fst) (CommonVoiceDataset_init ''/cv'' cv_example) =
     Inr [(''/cv/clips/s1.wav'', ''hello world''), (''/cv/clips/s3.wav'', ''dissent'')]"
  by code_simp

text \<open>
  C2, as the claim states it, fails: the third row of the example has the down-vote
  count \<open>-1\<close>, which is not \<open>0\<close>, and its entry is in the catalog.
\<close>

theorem cv_negative_down_votes_counterexample:
  "row_int [(''filename'', ''clips/s3.mp3''), (''text'', ''Dissent''),
            (''up_votes'', ''3''), (''down_votes'', ''-1'')] ''down_votes'' = Some (- 1) \<and>
   csv_rows cv_example ''/cv/cv-valid-test.csv'' =
     Some [[(''filename'', ''clips/s1.mp3''), (''text'', ''Hello World''),
              (''up_votes'', ''2''), (''down_votes'', ''0'')],
           [(''filename'', ''clips/s2.mp3''), (''text'', ''x''),
              (''up_votes'', ''1''), (''down_votes'', ''0'')],
           [(''filename'', ''clips/s3.mp3''), (''text'', ''Dissent''),
              (''up_votes'', ''3''), (''down_votes'', ''-1'')],
           [(''filename'', ''clips/s4.mp3''), (''text'', []),
              (''up_votes'', ''5''), (''down_votes'', ''0'')]] \<and>
   map_sum id (data_of \<circ> fst) (CommonVoiceDataset_init ''/cv'' cv_example) =
     Inr [(''/cv/clips/s1.wav'', ''hello world''), (''/cv/clips/s3.wav'', ''dissent'')]"
proof -
  have "row_int [(''filename'', ''clips/s3.mp3''), (''text'', ''Dissent''),
            (''up_votes'', ''3''), (''down_votes'', ''-1'')] ''down_votes'' = Some (- 1)"
    by code_simp
  moreover have "csv_rows cv_example ''/cv/cv-valid-test.csv'' =
     Some [[(''filename'', ''clips/s1.mp3''), (''text'', ''Hello World''),
              (''up_votes'', ''2''), (''down_votes'', ''0'')],
           [(''filename'', ''clips/s2.mp3''), (''text'', ''x''),
              (''up_votes'', ''1''), (''down_votes'', ''0'')],
           [(''filename'', ''clips/s3.mp3''), (''text'', ''Dissent''),
              (''up_votes'', ''3''), (''down_votes'', ''-1'')],
           [(''filename'', ''clips/s4.mp3''), (''text'', []),
              (''up_votes'', ''5''), (''down_votes'', ''0'')]]"
    by (simp add: cv_example_def)
  ultimately show ?thesis
    using cv_example_run by simp
qed

text \<open>
  C2, amended. When the constructor returns, the catalog holds, in the order of the
  rows of \<open>cv-valid-test.csv\<close>, one entry for each row with \<open>up_votes >= 2\<close>,
  \<open>down_votes <= 0\<close> and a text that is not empty, and no other entry; the transcript
  of each entry is the row's text in lower case.
\<close>

theorem cv_catalog_rows:
  assumes "csv_rows w (path_join root ''cv-valid-test.csv'') = Some rows"
    and "CommonVoiceDataset_init root w = Inr (d, w')"
  shows "data_of d = map (cv_entry root) (filter cv_retained rows) \<and>
         map snd (data_of d) = map (\<lambda>r. lower (row_field r ''text'')) (filter cv_retained rows)"
proof -
  from assms obtain data where
    loop: "rows_loop (cv_row root) rows [] w = Inr (data, w')" and d: "d = CommonVoiceDataset data"
    by (auto simp: CommonVoiceDataset_init_def Let_def split: sum.splits)
  from rows_loop_cv [OF loop] d show ?thesis
    by (simp add: cv_entry_def comp_def)
qed

lemma cv_example_rows:
  "csv_rows cv_example (path_join ''/cv'' ''cv-valid-test.csv'') =
     Some [[(''filename'', ''clips/s1.mp3''), (''text'', ''Hello World''),
              (''up_votes'', ''2''), (''down_votes'', ''0'')],
           [(''filename'', ''clips/s2.mp3''), (''text'', ''x''),
              (''up_votes'', ''1''), (''down_votes'', ''0'')],
           [(''filename'', ''clips/s3.mp3''), (''text'', ''Dissent''),
              (''up_votes'', ''3''), (''down_votes'', ''-1'')],
           [(''filename'', ''clips/s4.mp3''), (''text'', []),
              (''up_votes'', ''5''), (''down_votes'', ''0'')]]"
  by (simp add: cv_example_def path_join_def startswith_def endswith_def)

lemma cv_example_result:
  "CommonVoiceDataset_init ''/cv'' cv_example =
     Inr (CommonVoiceDataset
            [(''/cv/clips/s1.wav'', ''hello world''), (''/cv/clips/s3.wav'', ''dissent'')],
          cv_example\<lparr>
            present := insert ''/cv/clips/s3.wav'' (insert ''/cv/clips/s1.wav'' (present cv_example)),
            conversions := [(''/cv/clips/s1.mp3'', ''/cv/clips/s1.wav''),
                            (''/cv/clips/s3.mp3'', ''/cv/clips/s3.wav'')]\<rparr>)"
proof -
  have l: "lower ''Hello World'' = ''hello world''" "lower ''Dissent'' = ''dissent''"
    "lower ''x'' = ''x''" "lower [] = []"
    by code_simp+
  show ?thesis
    by (simp add: CommonVoiceDataset_init_def cv_example_def empty_world_def path_join_def
        startswith_def endswith_def cv_row_def row_get_def sox_build_def Let_def
        py_int_def strip_def is_space_def is_digit_def digit_val_def l str_replace_def)
qed

theorem cv_catalog_rows_witness:
  "csv_rows cv_example (path_join ''/cv'' ''cv-valid-test.csv'') =
     Some [[(''filename'', ''clips/s1.mp3''), (''text'', ''Hello World''),
              (''up_votes'', ''2''), (''down_votes'', ''0'')],
           [(''filename'', ''clips/s2.mp3''), (''text'', ''x''),
              (''up_votes'', ''1''), (''down_votes'', ''0'')],
           [(''filename'', ''clips/s3.mp3''), (''text'', ''Dissent''),
              (''up_votes'', ''3''), (''down_votes'', ''-1'')],
           [(''filename'', ''clips/s4.mp3''), (''text'', []),
              (''up_votes'', ''5''), (''down_votes'', ''0'')]] \<and>
   CommonVoiceDataset_init ''/cv'' cv_example =
     Inr (CommonVoiceDataset
            [(''/cv/clips/s1.wav'', ''hello world''), (''/cv/clips/s3.wav'', ''dissent'')],
          cv_example\<lparr>
            present := insert ''/cv/clips/s3.wav'' (insert ''/cv/clips/s1.wav'' (present cv_example)),
            conversions := [(''/cv/clips/s1.mp3'', ''/cv/clips/s1.wav''),
                            (''/cv/clips/s3.mp3'', ''/cv/clips/s3.wav'')]\<rparr>) \<and>
   map (cv_entry ''/cv'')
     (filter cv_retained
        [[(''filename'', ''clips/s1.mp3''), (''text'', ''Hello World''),
            (''up_votes'', ''2''), (''down_votes'', ''0'')],
         [(''filename'', ''clips/s2.mp3''), (''text'', ''x''),
            (''up_votes'', ''1''), (''down_votes'', ''0'')],
         [(''filename'', ''clips/s3.mp3''), (''text'', ''Dissent''),
            (''up_votes'', ''3''), (''down_votes'', ''-1'')],
         [(''filename'', ''clips/s4.mp3''), (''text'', []),
            (''up_votes'', ''5''), (''down_votes'', ''0'')]]) =
     [(''/cv/clips/s1.wav'', ''hello world''), (''/cv/clips/s3.wav'', ''dissent'')]"
  using cv_catalog_rows [OF cv_example_rows cv_example_result] cv_example_rows cv_example_result
  by simp

subsection \<open>Common Voice builder: the path of the WAV file\<close>

text \<open>
  C8. The claim asks that only the trailing extension \<open>.mp3\<close> of the joined path be
  replaced. For the clip \<open>clips/s1.mp3\<close> of a corpus under \<open>/data/voice.mp3\<close> that
  path is \<open>/data/voice.mp3/clips/s1.wav\<close>; the constructor catalogues
  \<open>/data/voice.wav/clips/s1.wav\<close>, a file in another directory, since \<open>str.replace\<close>
  rewrites every occurrence.
\<close>

theorem cv_wav_path_replaces_every_mp3:
  "map_sum id (data_of \<circ> fst) (CommonVoiceDataset_init ''/data/voice.mp3'' cv_mp3_directory) =
     Inr [(''/data/voice.wav/clips/s1.wav'', ''hello'')]"
  by code_simp

subsection \<open>LibriSpeech builder: the entries of a chapter\<close>






lemma libri_example_names:
  "wav_file_of ''19-198-0000.flac'' = ''19-198-0000.wav''"
  "key_of ''19-198-0000.flac'' = ''19-198-0000''"
  "endswith ''19-198-0000.flac'' ''.flac''"
  "\<not> endswith ''19-198.trans.txt'' ''.flac''"
  "split_first_space (''19-198-0000 NORTHANGER ABBEY'' @ [CHR 0x0A]) =
     [''19-198-0000'', ''NORTHANGER ABBEY'' @ [CHR 0x0A]]"
  by code_simp+

lemma libri_example_chapter:
  "libri_chapter ''19'' ''/ls/19'' ''198'' [] libri_example =
     Inr ([(''/ls/19/198/19-198-0000.wav'', ''NORTHANGER ABBEY'' @ [CHR 0x0A])],
          soundfile_write ''/ls/19/198'' ''19-198-0000.wav'' ''/ls/19/198/19-198-0000.flac''
            5 libri_example)"
proof -
  have paths: "path_join ''/ls/19'' ''198'' = ''/ls/19/198''"
    "path_join ''/ls/19/198'' (''19'' @ ''-'' @ ''198'' @ ''.trans.txt'') = ''/ls/19/198/19-198.trans.txt''"
    "path_join ''/ls/19/198'' ''19-198-0000.wav'' = ''/ls/19/198/19-198-0000.wav''"
    "path_join ''/ls/19/198'' ''19-198-0000.flac'' = ''/ls/19/198/19-198-0000.flac''"
    by code_simp+
  have absent: "''/ls/19/198/19-198-0000.wav'' \<notin> present libri_example"
    by (simp add: libri_example_def empty_world_def)
  have files: "readlines libri_example ''/ls/19/198/19-198.trans.txt'' =
      Some [''19-198-0000 NORTHANGER ABBEY'' @ [CHR 0x0A]]"
    "listdir libri_example ''/ls/19/198'' = Some [''19-198-0000.flac'', ''19-198.trans.txt'']"
    by (simp_all add: libri_example_def empty_world_def)
  have conv: "soundfile_convert ''/ls/19/198'' ''19-198-0000.wav'' ''/ls/19/198/19-198-0000.flac''
        libri_example =
      Inr (soundfile_write ''/ls/19/198'' ''19-198-0000.wav'' ''/ls/19/198/19-198-0000.flac''
             5 libri_example)"
    by (simp add: soundfile_convert_def soundfile_read_def libri_example_def empty_world_def)
  show ?thesis
    unfolding libri_chapter_def Let_def paths files option.case read_transcripts_def
    using absent
    by (simp add: libri_example_names paths conv Let_def del: append.simps)
qed


subsection \<open>Facts on names and paths\<close>

lemma endswith_Cons:
  "p \<noteq> [] \<Longrightarrow> endswith (c # r) p \<longleftrightarrow> endswith r p \<or> c # r = p"
  by (auto simp: endswith_def Suc_diff_le not_less_eq_eq le_Suc_eq)

lemma drop_to_last: "a \<noteq> [] \<Longrightarrow> drop (length a - Suc 0) a = [last a]"
  by (induction a rule: rev_induct) simp_all

lemma endswith_slash: "endswith a ''/'' \<longleftrightarrow> a \<noteq> [] \<and> last a = CHR ''/''"
  by (cases "a = []") (simp_all add: endswith_def drop_to_last Suc_le_eq)

lemma replace_scan_flac_no_dot:
  "CHR ''.'' \<notin> set (replace_scan ''.flac'' ''.wav'' s) \<Longrightarrow> replace_scan ''.flac'' ''.wav'' s = s"
proof (induction s rule: length_induct)
  case (1 s)
  show ?case
  proof (cases s)
    case Nil
    then show ?thesis by simp
  next
    case (Cons c cs)
    show ?thesis
    proof (cases "startswith (c # cs) ''.flac''")
      case True
      with "1.prems" Cons show ?thesis by simp
    next
      case False
      with "1.prems" Cons have "CHR ''.'' \<notin> set (replace_scan ''.flac'' ''.wav'' cs)"
        by simp
      with "1.IH" Cons have "replace_scan ''.flac'' ''.wav'' cs = cs"
        by simp
      with False Cons show ?thesis by simp
    qed
  qed
qed

lemma wav_file_not_flac: "\<not> endswith (wav_file_of f) ''.flac''"
proof -
  have "\<not> endswith (replace_scan ''.flac'' ''.wav'' s) ''.flac''" for s
  proof (induction s rule: length_induct)
    case (1 s)
    show ?case
    proof (cases s)
      case Nil
      then show ?thesis by (simp add: endswith_def)
    next
      case (Cons c cs)
      show ?thesis
      proof (cases "startswith (c # cs) ''.flac''")
        case True
        have "\<not> endswith (replace_scan ''.flac'' ''.wav'' (drop (length ''.flac'' - 1) cs)) ''.flac''"
          using "1.IH" Cons by simp
        with True Cons show ?thesis
          by (simp add: endswith_Cons)
      next
        case False
        have rest: "\<not> endswith (replace_scan ''.flac'' ''.wav'' cs) ''.flac''"
          using "1.IH" Cons by simp
        have "c # replace_scan ''.flac'' ''.wav'' cs \<noteq> ''.flac''"
        proof
          assume eq: "c # replace_scan ''.flac'' ''.wav'' cs = ''.flac''"
          then have "CHR ''.'' \<notin> set (replace_scan ''.flac'' ''.wav'' cs)"
            by auto
          from replace_scan_flac_no_dot [OF this] eq have "c # cs = ''.flac''"
            by simp
          with False show False
            by (simp add: startswith_def)
        qed
        with rest False Cons show ?thesis
          by (simp add: endswith_Cons)
      qed
    qed
  qed
  then show ?thesis
    by (simp add: wav_file_of_def str_replace_def)
qed

lemma path_join_name:
  "is_name b \<Longrightarrow>
     path_join a b = (if a = [] \<or> endswith a ''/'' then a @ b else a @ ''/'' @ b)"
  by (cases b) (auto simp: path_join_def is_name_def startswith_def)

lemma path_join_name_end:
  assumes "is_name b"
  shows "\<not> endswith (path_join a b) ''/'' \<and> path_join a b \<noteq> []"
proof -
  from assms have "b \<noteq> []"
    by (simp add: is_name_def)
  with assms have "last b \<noteq> CHR ''/''"
    by (metis is_name_def last_in_set)
  with \<open>b \<noteq> []\<close> assms show ?thesis
    by (simp add: path_join_name endswith_slash)
qed

lemma chapter_dir_form:
  "is_name s \<Longrightarrow> is_name c \<Longrightarrow>
     path_join (path_join root s) c = path_join root s @ ''/'' @ c"
  using path_join_name_end [of s root] by (simp add: path_join_name)

lemma chapter_path_not_root: "\<not> chapter_path root root"
proof
  assume "chapter_path root root"
  then obtain s c where sc: "is_name s" "is_name c" "root = path_join (path_join root s) c"
    by (auto simp: chapter_path_def)
  then have "length root = length (path_join root s @ ''/'' @ c)"
    using chapter_dir_form [of s c root] by simp
  with sc(1) show False
    by (simp add: path_join_name split: if_splits)
qed

lemma chapter_path_not_speaker: "is_name s' \<Longrightarrow> \<not> chapter_path root (path_join root s')"
proof
  assume s': "is_name s'" and "chapter_path root (path_join root s')"
  then obtain s c where sc: "is_name s" "is_name c"
    "path_join root s' = path_join (path_join root s) c"
    by (auto simp: chapter_path_def)
  then have "path_join root s' = path_join root s @ ''/'' @ c"
    using chapter_dir_form [of s c root] by simp
  with sc(1) s' have "s' = s @ ''/'' @ c"
    by (simp add: path_join_name split: if_splits)
  with s' show False
    by (simp add: is_name_def)
qed

subsection \<open>The LibriSpeech builder follows the plan\<close>

lemma later_refl: "later root w w"
  by (simp add: later_def)

lemma soundfile_write_later:
  assumes cp: "chapter_path root chapter_dir" and lw: "later root w0 w"
  shows "later root w0 (soundfile_write chapter_dir (wav_file_of f) flac_path pcm w)"
proof -
  let ?w1 = "soundfile_write chapter_dir (wav_file_of f) flac_path pcm w"
  have rl: "csv_rows ?w1 = csv_rows w0" "readlines ?w1 = readlines w0"
    using lw by (simp_all add: soundfile_write_def later_def)
  have "listdir ?w1 p = listdir w0 p \<or>
        (chapter_path root p \<and>
         (\<exists>old new. listdir w0 p = Some old \<and> listdir ?w1 p = Some (old @ new) \<and>
            (\<forall>n\<in>set new. \<not> endswith n ''.flac'')))" for p
  proof (cases "p = chapter_dir")
    case False
    then have "listdir ?w1 p = listdir w p"
      by (simp add: soundfile_write_def)
    with lw show ?thesis
      by (simp add: later_def)
  next
    case True
    from lw have "listdir w p = listdir w0 p \<or>
        (\<exists>old new. listdir w0 p = Some old \<and> listdir w p = Some (old @ new) \<and>
            (\<forall>n\<in>set new. \<not> endswith n ''.flac''))"
      by (auto simp: later_def)
    then consider (none) "listdir w0 p = None" "listdir w p = None"
      | (ext) old new where "listdir w0 p = Some old" "listdir w p = Some (old @ new)"
          "\<forall>n\<in>set new. \<not> endswith n ''.flac''"
      by (cases "listdir w0 p") force+
    then show ?thesis
    proof cases
      case none
      with True show ?thesis
        by (simp add: soundfile_write_def)
    next
      case ext
      show ?thesis
      proof (cases "wav_file_of f \<in> set (old @ new)")
        case True
        with ext \<open>p = chapter_dir\<close> have "listdir ?w1 p = Some (old @ new)"
          by (simp add: soundfile_write_def)
        with ext cp \<open>p = chapter_dir\<close> show ?thesis
          by blast
      next
        case False
        with ext \<open>p = chapter_dir\<close> have "listdir ?w1 p = Some (old @ (new @ [wav_file_of f]))"
          by (simp add: soundfile_write_def)
        moreover have "\<forall>n\<in>set (new @ [wav_file_of f]). \<not> endswith n ''.flac''"
          using ext(3) wav_file_not_flac by simp
        ultimately show ?thesis
          using ext(1) cp \<open>p = chapter_dir\<close> by blast
      qed
    qed
  qed
  with rl show ?thesis
    by (simp add: later_def)
qed

lemma soundfile_write_present:
  "present (soundfile_write chapter_dir wav_file flac_path pcm w) =
     insert (path_join chapter_dir wav_file) (present w)"
  by (simp add: soundfile_write_def)

lemma soundfile_write_readable:
  "readable w p \<Longrightarrow> readable (soundfile_write chapter_dir wav_file flac_path pcm w) p"
  by (simp add: soundfile_write_def readable_def)

lemma soundfile_convert_cases:
  "soundfile_convert chapter_dir wav_file flac_path w = Inr w1 \<Longrightarrow>
     \<exists>pcm. w1 = soundfile_write chapter_dir wav_file flac_path pcm w"
  by (auto simp: soundfile_convert_def split: sum.splits)

lemma soundfile_convert_readable:
  "readable w flac_path \<Longrightarrow>
     \<exists>pcm. soundfile_convert chapter_dir wav_file flac_path w =
       Inr (soundfile_write chapter_dir wav_file flac_path pcm w)"
  by (auto simp: soundfile_convert_def soundfile_read_def readable_def)

text \<open>A pass of the inner loop that returns.\<close>

lemma flac_loop_run:
  assumes cp: "chapter_path root chapter_dir"
  shows "later root w0 w \<Longrightarrow>
     flac_loop chapter_dir transcripts names data w = Inr (data', w') \<Longrightarrow>
     \<exists>es. flac_entries chapter_dir transcripts names = Inr es \<and> data' = data @ es \<and>
       later root w0 w' \<and> present w \<subseteq> present w' \<and>
       (\<forall>p. readable w p \<longrightarrow> readable w' p) \<and> fst ` set es \<subseteq> present w'"
proof (induction names arbitrary: data w)
  case Nil
  then show ?case by simp
next
  case (Cons f names)
  show ?case
  proof (cases "endswith f ''.flac''")
    case False
    with Cons show ?thesis by simp
  next
    case flac: True
    let ?wav = "path_join chapter_dir (wav_file_of f)"
    from Cons.prems(2) flac obtain w1 t where
      conv: "(if ?wav \<notin> present w
              then soundfile_convert chapter_dir (wav_file_of f) (path_join chapter_dir f) w
              else Inr w) = Inr w1"
      and t: "transcripts (key_of f) = Some t"
      and rest: "flac_loop chapter_dir transcripts names (data @ [(?wav, t)]) w1 = Inr (data', w')"
      by (auto simp: Let_def split: sum.splits option.splits)
    have w1: "later root w0 w1 \<and> present w \<subseteq> present w1 \<and>
        (\<forall>p. readable w p \<longrightarrow> readable w1 p) \<and> ?wav \<in> present w1"
    proof (cases "?wav \<in> present w")
      case True
      with conv Cons.prems(1) show ?thesis by simp
    next
      case False
      with conv obtain pcm where
        "w1 = soundfile_write chapter_dir (wav_file_of f) (path_join chapter_dir f) pcm w"
        using soundfile_convert_cases by fastforce
      with Cons.prems(1) soundfile_write_later [OF cp] show ?thesis
        by (auto simp: soundfile_write_present soundfile_write_readable)
    qed
    from Cons.IH [of w1, OF _ rest] w1 obtain es where es:
      "flac_entries chapter_dir transcripts names = Inr es" "data' = (data @ [(?wav, t)]) @ es"
      "later root w0 w'" "present w1 \<subseteq> present w'" "\<forall>p. readable w1 p \<longrightarrow> readable w' p"
      "fst ` set es \<subseteq> present w'"
      by blast
    have "flac_entries chapter_dir transcripts (f # names) = Inr ((?wav, t) # es)"
      using flac t es(1) by simp
    moreover have "fst ` set ((?wav, t) # es) \<subseteq> present w'"
      using w1 es(4,6) by auto
    moreover have "present w \<subseteq> present w'" "\<forall>p. readable w p \<longrightarrow> readable w' p"
      using w1 es(4,5) by auto
    ultimately show ?thesis
      using es(2,3) by simp
  qed
qed

text \<open>A pass of the inner loop where every planned WAV file is present.\<close>

lemma flac_loop_settled:
  "flac_entries chapter_dir transcripts names = Inr es \<Longrightarrow> fst ` set es \<subseteq> present w \<Longrightarrow>
     flac_loop chapter_dir transcripts names data w = Inr (data @ es, w)"
proof (induction names arbitrary: data es)
  case Nil
  then show ?case by simp
next
  case (Cons f names)
  show ?case
  proof (cases "endswith f ''.flac''")
    case False
    with Cons show ?thesis by simp
  next
    case True
    let ?wav = "path_join chapter_dir (wav_file_of f)"
    from Cons.prems(1) True obtain t es' where t: "transcripts (key_of f) = Some t"
      and es': "flac_entries chapter_dir transcripts names = Inr es'" and es: "es = (?wav, t) # es'"
      by (auto split: option.splits sum.splits)
    from Cons.prems(2) es have here: "?wav \<in> present w" and "fst ` set es' \<subseteq> present w"
      by auto
    from Cons.IH [OF es' this(2)] True t here es show ?thesis
      by (simp add: Let_def)
  qed
qed

text \<open>A pass of the inner loop where the \<open>.flac\<close> files can be read.\<close>

lemma flac_loop_total:
  "\<forall>f\<in>set names. endswith f ''.flac'' \<longrightarrow> readable w (path_join chapter_dir f) \<Longrightarrow>
     (case flac_entries chapter_dir transcripts names of
        Inl e \<Rightarrow> flac_loop chapter_dir transcripts names data w = Inl e
      | Inr es \<Rightarrow> (\<exists>w'. flac_loop chapter_dir transcripts names data w = Inr (data @ es, w')))"
proof (induction names arbitrary: data w)
  case Nil
  then show ?case by simp
next
  case (Cons f names)
  show ?case
  proof (cases "endswith f ''.flac''")
    case False
    with Cons.prems have "\<forall>f\<in>set names. endswith f ''.flac'' \<longrightarrow> readable w (path_join chapter_dir f)"
      by simp
    from Cons.IH [OF this, of data] False show ?thesis
      by (simp split: sum.splits)
  next
    case flac: True
    let ?wav = "path_join chapter_dir (wav_file_of f)"
    from Cons.prems flac have "readable w (path_join chapter_dir f)"
      by simp
    from soundfile_convert_readable [OF this] obtain pcm where
      conv: "soundfile_convert chapter_dir (wav_file_of f) (path_join chapter_dir f) w =
               Inr (soundfile_write chapter_dir (wav_file_of f) (path_join chapter_dir f) pcm w)"
      by blast
    let ?w1 = "if ?wav \<notin> present w
               then soundfile_write chapter_dir (wav_file_of f) (path_join chapter_dir f) pcm w
               else w"
    have step: "(if ?wav \<notin> present w
              then soundfile_convert chapter_dir (wav_file_of f) (path_join chapter_dir f) w
              else Inr w) = Inr ?w1"
      using conv by simp
    have r1: "\<forall>f\<in>set names. endswith f ''.flac'' \<longrightarrow> readable ?w1 (path_join chapter_dir f)"
      using Cons.prems by (simp add: soundfile_write_readable)
    show ?thesis
    proof (cases "transcripts (key_of f)")
      case None
      with flac step show ?thesis
        by (simp add: Let_def)
    next
      case (Some t)
      have run: "flac_loop chapter_dir transcripts (f # names) data w =
                 flac_loop chapter_dir transcripts names (data @ [(?wav, t)]) ?w1"
        using flac Some step by (simp add: Let_def)
      note ih = Cons.IH [OF r1, of "data @ [(?wav, t)]"]
      show ?thesis
      proof (cases "flac_entries chapter_dir transcripts names")
        case (Inl e)
        with ih flac Some show ?thesis
          unfolding run by simp
      next
        case (Inr es)
        with ih obtain w' where
          "flac_loop chapter_dir transcripts names (data @ [(?wav, t)]) ?w1
             = Inr ((data @ [(?wav, t)]) @ es, w')"
          by auto
        with Inr flac Some show ?thesis
          unfolding run by simp
      qed
    qed
  qed
qed

lemma flac_entries_append:
  "\<forall>n\<in>set new. \<not> endswith n ''.flac'' \<Longrightarrow>
     flac_entries chapter_dir transcripts (old @ new) = flac_entries chapter_dir transcripts old"
proof (induction old)
  case Nil
  then show ?case by (induction new) simp_all
next
  case (Cons f old)
  then show ?case by (simp split: option.splits)
qed

lemma flac_loop_follows:
  assumes cp: "chapter_path root chapter_dir" and lw: "later root w0 w"
    and old: "listdir w0 chapter_dir = Some old"
    and new: "\<forall>n\<in>set new. \<not> endswith n ''.flac''"
  shows "follows root w0 w data (flac_entries chapter_dir transcripts old)
           (flac_loop chapter_dir transcripts (old @ new) data w)"
proof -
  note same = flac_entries_append [OF new, of chapter_dir transcripts old]
  have a: "\<exists>es. flac_entries chapter_dir transcripts old = Inr es \<and> data' = data @ es \<and>
       later root w0 w' \<and> present w \<subseteq> present w' \<and>
       (\<forall>p. readable w p \<longrightarrow> readable w' p) \<and> fst ` set es \<subseteq> present w'"
    if "flac_loop chapter_dir transcripts (old @ new) data w = Inr (data', w')" for data' w'
    using flac_loop_run [OF cp lw that] same by simp
  have b: "flac_loop chapter_dir transcripts (old @ new) data w = Inr (data @ es, w)"
    if "flac_entries chapter_dir transcripts old = Inr es" "fst ` set es \<subseteq> present w" for es
    using flac_loop_settled [of chapter_dir transcripts "old @ new" es w data] that same by simp
  have c: "case flac_entries chapter_dir transcripts old of
        Inl e \<Rightarrow> flac_loop chapter_dir transcripts (old @ new) data w = Inl e
      | Inr es \<Rightarrow> (\<exists>w'. flac_loop chapter_dir transcripts (old @ new) data w = Inr (data @ es, w'))"
    if fr: "flacs_readable w0 w"
  proof -
    have "\<forall>f\<in>set (old @ new). endswith f ''.flac'' \<longrightarrow> readable w (path_join chapter_dir f)"
      using fr old new by (auto simp: flacs_readable_def)
    from flac_loop_total [OF this, of transcripts data] same show ?thesis
      by simp
  qed
  show ?thesis
    unfolding follows_def
  proof (intro conjI allI impI)
    fix data' w'
    assume "flac_loop chapter_dir transcripts (old @ new) data w = Inr (data', w')"
    then show "\<exists>es. flac_entries chapter_dir transcripts old = Inr es \<and> data' = data @ es \<and>
       later root w0 w' \<and> present w \<subseteq> present w' \<and>
       (\<forall>p. readable w p \<longrightarrow> readable w' p) \<and> fst ` set es \<subseteq> present w'"
      by (rule a)
  next
    fix es
    assume "flac_entries chapter_dir transcripts old = Inr es \<and> fst ` set es \<subseteq> present w"
    then show "flac_loop chapter_dir transcripts (old @ new) data w = Inr (data @ es, w)"
      using b by blast
  next
    assume "flacs_readable w0 w"
    then show "case flac_entries chapter_dir transcripts old of
        Inl e \<Rightarrow> flac_loop chapter_dir transcripts (old @ new) data w = Inl e
      | Inr es \<Rightarrow> (\<exists>w'. flac_loop chapter_dir transcripts (old @ new) data w = Inr (data @ es, w'))"
      by (rule c)
  qed
qed

lemma follows_error:
  "follows root w0 w data (Inl e) (Inl e)"
  by (simp add: follows_def)

lemma libri_chapter_follows:
  assumes cp: "chapter_path root (path_join speaker_dir chapter_id)"
    and lw: "later root w0 w"
  shows "follows root w0 w data (plan_chapter w0 speaker_id speaker_dir chapter_id)
           (libri_chapter speaker_id speaker_dir chapter_id data w)"
proof -
  let ?cd = "path_join speaker_dir chapter_id"
  let ?tp = "path_join ?cd (speaker_id @ ''-'' @ chapter_id @ ''.trans.txt'')"
  have rl: "readlines w ?tp = readlines w0 ?tp"
    using lw by (simp add: later_def)
  show ?thesis
  proof (cases "readlines w0 ?tp")
    case None
    with rl show ?thesis
      by (simp add: plan_chapter_def libri_chapter_def follows_error)
  next
    case (Some lines)
    show ?thesis
    proof (cases "read_transcripts lines")
      case (Inl e)
      with rl Some show ?thesis
        by (simp add: plan_chapter_def libri_chapter_def follows_error)
    next
      case (Inr tr)
      from lw have "listdir w ?cd = listdir w0 ?cd \<or>
          (\<exists>old new. listdir w0 ?cd = Some old \<and> listdir w ?cd = Some (old @ new) \<and>
              (\<forall>n\<in>set new. \<not> endswith n ''.flac''))"
        by (auto simp: later_def)
      then consider (none) "listdir w0 ?cd = None" "listdir w ?cd = None"
        | (ext) old new where "listdir w0 ?cd = Some old" "listdir w ?cd = Some (old @ new)"
            "\<forall>n\<in>set new. \<not> endswith n ''.flac''"
        by (cases "listdir w0 ?cd") force+
      then show ?thesis
      proof cases
        case none
        with rl Some Inr show ?thesis
          by (simp add: plan_chapter_def libri_chapter_def follows_error)
      next
        case ext
        have "follows root w0 w data (flac_entries ?cd tr old)
                (flac_loop ?cd tr (old @ new) data w)"
          by (rule flac_loop_follows [OF cp lw ext(1,3)])
        with rl Some Inr ext(1,2) show ?thesis
          by (simp add: plan_chapter_def libri_chapter_def)
      qed
    qed
  qed
qed

lemma followsI:
  assumes "\<And>data' w'. run = Inr (data', w') \<Longrightarrow>
      \<exists>es. plan = Inr es \<and> data' = data @ es \<and> later root w0 w' \<and>
        present w \<subseteq> present w' \<and> (\<forall>p. readable w p \<longrightarrow> readable w' p) \<and>
        fst ` set es \<subseteq> present w'"
    and "\<And>es. plan = Inr es \<Longrightarrow> fst ` set es \<subseteq> present w \<Longrightarrow> run = Inr (data @ es, w)"
    and "\<And>e. flacs_readable w0 w \<Longrightarrow> plan = Inl e \<Longrightarrow> run = Inl e"
    and "\<And>es. flacs_readable w0 w \<Longrightarrow> plan = Inr es \<Longrightarrow> \<exists>w'. run = Inr (data @ es, w')"
  shows "follows root w0 w data plan run"
  unfolding follows_def
proof (intro conjI allI impI)
  fix data' w'
  assume "run = Inr (data', w')"
  then show "\<exists>es. plan = Inr es \<and> data' = data @ es \<and> later root w0 w' \<and>
        present w \<subseteq> present w' \<and> (\<forall>p. readable w p \<longrightarrow> readable w' p) \<and>
        fst ` set es \<subseteq> present w'"
    by (rule assms(1))
next
  fix es
  assume "plan = Inr es \<and> fst ` set es \<subseteq> present w"
  then show "run = Inr (data @ es, w)"
    using assms(2) by blast
next
  assume fr: "flacs_readable w0 w"
  show "case plan of Inl e \<Rightarrow> run = Inl e | Inr es \<Rightarrow> \<exists>w'. run = Inr (data @ es, w')"
  proof (cases plan)
    case (Inl e)
    with assms(3) [OF fr] show ?thesis by simp
  next
    case (Inr es)
    with assms(4) [OF fr] show ?thesis by simp
  qed
qed

lemma follows_run:
  "follows root w0 w data plan run \<Longrightarrow> run = Inr (data', w') \<Longrightarrow>
     \<exists>es. plan = Inr es \<and> data' = data @ es \<and> later root w0 w' \<and>
       present w \<subseteq> present w' \<and> (\<forall>p. readable w p \<longrightarrow> readable w' p) \<and>
       fst ` set es \<subseteq> present w'"
  unfolding follows_def by blast

lemma follows_settled:
  "follows root w0 w data plan run \<Longrightarrow> plan = Inr es \<Longrightarrow> fst ` set es \<subseteq> present w \<Longrightarrow>
     run = Inr (data @ es, w)"
  unfolding follows_def by blast

lemma follows_fails:
  "follows root w0 w data plan run \<Longrightarrow> flacs_readable w0 w \<Longrightarrow> plan = Inl e \<Longrightarrow>
     run = Inl e"
  unfolding follows_def by simp

lemma follows_returns:
  "follows root w0 w data plan run \<Longrightarrow> flacs_readable w0 w \<Longrightarrow> plan = Inr es \<Longrightarrow>
     \<exists>w'. run = Inr (data @ es, w')"
  unfolding follows_def by simp

lemma flacs_readable_mono:
  "flacs_readable w0 w \<Longrightarrow> \<forall>p. readable w p \<longrightarrow> readable w1 p \<Longrightarrow> flacs_readable w0 w1"
  unfolding flacs_readable_def by blast

lemma follows_then:
  assumes lw: "later root w0 w"
    and first: "follows root w0 w data p1 r1"
    and rest: "\<And>es w1. p1 = Inr es \<Longrightarrow> r1 = Inr (data @ es, w1) \<Longrightarrow> later root w0 w1 \<Longrightarrow>
                 follows root w0 w1 (data @ es) p2 (r2 (data @ es) w1)"
  shows "follows root w0 w data
           (case p1 of Inl e \<Rightarrow> Inl e
            | Inr es \<Rightarrow> (case p2 of Inl e \<Rightarrow> Inl e | Inr es' \<Rightarrow> Inr (es @ es')))
           (case r1 of Inl e \<Rightarrow> Inl e | Inr (d1, w1) \<Rightarrow> r2 d1 w1)"
proof (rule followsI)
  fix data' w'
  assume run: "(case r1 of Inl e \<Rightarrow> Inl e | Inr (d1, w1) \<Rightarrow> r2 d1 w1) = Inr (data', w')"
  then obtain d1 w1 where r1: "r1 = Inr (d1, w1)" and r2: "r2 d1 w1 = Inr (data', w')"
    by (auto split: sum.splits)
  from follows_run [OF first r1] obtain es where es: "p1 = Inr es" "d1 = data @ es"
    "later root w0 w1" "present w \<subseteq> present w1" "\<forall>p. readable w p \<longrightarrow> readable w1 p"
    "fst ` set es \<subseteq> present w1"
    by blast
  from rest [OF es(1) _ es(3)] r1 es(2)
  have f2: "follows root w0 w1 (data @ es) p2 (r2 (data @ es) w1)"
    by simp
  from follows_run [OF f2] r2 es(2) obtain es' where es': "p2 = Inr es'"
    "data' = (data @ es) @ es'" "later root w0 w'" "present w1 \<subseteq> present w'"
    "\<forall>p. readable w1 p \<longrightarrow> readable w' p" "fst ` set es' \<subseteq> present w'"
    by blast
  have "fst ` set (es @ es') \<subseteq> present w'"
    using es(6) es'(4,6) by auto
  moreover have "present w \<subseteq> present w'" "\<forall>p. readable w p \<longrightarrow> readable w' p"
    using es(4,5) es'(4,5) by auto
  ultimately show "\<exists>es''. (case p1 of Inl e \<Rightarrow> Inl e
            | Inr es \<Rightarrow> (case p2 of Inl e \<Rightarrow> Inl e | Inr es' \<Rightarrow> Inr (es @ es'))) = Inr es'' \<and>
        data' = data @ es'' \<and> later root w0 w' \<and> present w \<subseteq> present w' \<and>
        (\<forall>p. readable w p \<longrightarrow> readable w' p) \<and> fst ` set es'' \<subseteq> present w'"
    using es(1) es'(1,2,3) by (intro exI [of _ "es @ es'"]) simp
next
  fix est
  assume plan: "(case p1 of Inl e \<Rightarrow> Inl e
            | Inr es \<Rightarrow> (case p2 of Inl e \<Rightarrow> Inl e | Inr es' \<Rightarrow> Inr (es @ es'))) = Inr est"
    and here: "fst ` set est \<subseteq> present w"
  from plan obtain es es' where p: "p1 = Inr es" "p2 = Inr es'" "est = es @ es'"
    by (auto split: sum.splits)
  with here have h: "fst ` set es \<subseteq> present w" "fst ` set es' \<subseteq> present w"
    by auto
  from follows_settled [OF first p(1) h(1)] have r1: "r1 = Inr (data @ es, w)" .
  from rest [OF p(1) r1 lw] have "follows root w0 w (data @ es) p2 (r2 (data @ es) w)" .
  from follows_settled [OF this p(2) h(2)] r1 p(3)
  show "(case r1 of Inl e \<Rightarrow> Inl e | Inr (d1, w1) \<Rightarrow> r2 d1 w1) = Inr (data @ est, w)"
    by simp
next
  fix e
  assume fr: "flacs_readable w0 w"
    and plan: "(case p1 of Inl e \<Rightarrow> Inl e
            | Inr es \<Rightarrow> (case p2 of Inl e \<Rightarrow> Inl e | Inr es' \<Rightarrow> Inr (es @ es'))) = Inl e"
  show "(case r1 of Inl e \<Rightarrow> Inl e | Inr (d1, w1) \<Rightarrow> r2 d1 w1) = Inl e"
  proof (cases p1)
    case (Inl e1)
    with plan follows_fails [OF first fr Inl] show ?thesis by simp
  next
    case (Inr es)
    with plan have p2: "p2 = Inl e"
      by (auto split: sum.splits)
    from follows_returns [OF first fr Inr] obtain w1 where r1: "r1 = Inr (data @ es, w1)"
      by blast
    from follows_run [OF first r1] have l1: "later root w0 w1"
      and m1: "\<forall>p. readable w p \<longrightarrow> readable w1 p"
      by auto
    from rest [OF Inr r1 l1] have "follows root w0 w1 (data @ es) p2 (r2 (data @ es) w1)" .
    from follows_fails [OF this flacs_readable_mono [OF fr m1] p2] r1 show ?thesis
      by simp
  qed
next
  fix est
  assume fr: "flacs_readable w0 w"
    and plan: "(case p1 of Inl e \<Rightarrow> Inl e
            | Inr es \<Rightarrow> (case p2 of Inl e \<Rightarrow> Inl e | Inr es' \<Rightarrow> Inr (es @ es'))) = Inr est"
  from plan obtain es es' where p: "p1 = Inr es" "p2 = Inr es'" "est = es @ es'"
    by (auto split: sum.splits)
  from follows_returns [OF first fr p(1)] obtain w1 where r1: "r1 = Inr (data @ es, w1)"
    by blast
  from follows_run [OF first r1] have l1: "later root w0 w1"
    and m1: "\<forall>p. readable w p \<longrightarrow> readable w1 p"
    by auto
  from rest [OF p(1) r1 l1] have "follows root w0 w1 (data @ es) p2 (r2 (data @ es) w1)" .
  from follows_returns [OF this flacs_readable_mono [OF fr m1] p(2)] r1 p(3)
  show "\<exists>w'. (case r1 of Inl e \<Rightarrow> Inl e | Inr (d1, w1) \<Rightarrow> r2 d1 w1) = Inr (data @ est, w')"
    by simp
qed

lemma follows_Nil: "later root w0 w \<Longrightarrow> follows root w0 w data (Inr []) (Inr (data, w))"
  by (rule followsI) simp_all

lemma chapter_loop_follows:
  assumes cps: "\<forall>c\<in>set chapter_ids. chapter_path root (path_join speaker_dir c)"
  shows "later root w0 w \<Longrightarrow>
     follows root w0 w data (collect (plan_chapter w0 speaker_id speaker_dir) chapter_ids)
       (chapter_loop speaker_id speaker_dir chapter_ids data w)"
  using cps
proof (induction chapter_ids arbitrary: data w)
  case Nil
  then show ?case
    by (simp add: follows_Nil)
next
  case (Cons c cs)
  have "follows root w0 w data
          (case plan_chapter w0 speaker_id speaker_dir c of Inl e \<Rightarrow> Inl e
           | Inr es \<Rightarrow> (case collect (plan_chapter w0 speaker_id speaker_dir) cs of
                          Inl e \<Rightarrow> Inl e | Inr es' \<Rightarrow> Inr (es @ es')))
          (case libri_chapter speaker_id speaker_dir c data w of Inl e \<Rightarrow> Inl e
           | Inr (d1, w1) \<Rightarrow> chapter_loop speaker_id speaker_dir cs d1 w1)"
  proof (rule follows_then [OF Cons.prems(1)])
    show "follows root w0 w data (plan_chapter w0 speaker_id speaker_dir c)
            (libri_chapter speaker_id speaker_dir c data w)"
      using Cons.prems by (intro libri_chapter_follows) simp_all
  next
    fix es w1
    assume "later root w0 w1"
    then show "follows root w0 w1 (data @ es)
                 (collect (plan_chapter w0 speaker_id speaker_dir) cs)
                 (chapter_loop speaker_id speaker_dir cs (data @ es) w1)"
      using Cons.prems by (intro Cons.IH) simp_all
  qed
  then show ?case by simp
qed

lemma libri_speaker_follows:
  assumes wf: "wf_listings w0" and name: "is_name speaker_id" and lw: "later root w0 w"
  shows "follows root w0 w data (plan_speaker w0 root speaker_id)
           (libri_speaker root speaker_id data w)"
proof -
  let ?sd = "path_join root speaker_id"
  have same: "listdir w ?sd = listdir w0 ?sd"
    using lw chapter_path_not_speaker [OF name, of root] by (auto simp: later_def)
  show ?thesis
  proof (cases "listdir w0 ?sd")
    case None
    with same show ?thesis
      by (simp add: plan_speaker_def libri_speaker_def follows_error)
  next
    case (Some cids)
    with wf have "\<forall>c\<in>set cids. is_name c"
      by (auto simp: wf_listings_def)
    with name have "\<forall>c\<in>set cids. chapter_path root (path_join ?sd c)"
      by (auto simp: chapter_path_def)
    from chapter_loop_follows [OF this lw] same Some show ?thesis
      by (simp add: plan_speaker_def libri_speaker_def)
  qed
qed

lemma speaker_loop_follows:
  assumes wf: "wf_listings w0" and names: "\<forall>s\<in>set speaker_ids. is_name s"
  shows "later root w0 w \<Longrightarrow>
     follows root w0 w data (collect (plan_speaker w0 root) speaker_ids)
       (speaker_loop root speaker_ids data w)"
  using names
proof (induction speaker_ids arbitrary: data w)
  case Nil
  then show ?case
    by (simp add: follows_Nil)
next
  case (Cons s ss)
  have "follows root w0 w data
          (case plan_speaker w0 root s of Inl e \<Rightarrow> Inl e
           | Inr es \<Rightarrow> (case collect (plan_speaker w0 root) ss of
                          Inl e \<Rightarrow> Inl e | Inr es' \<Rightarrow> Inr (es @ es')))
          (case libri_speaker root s data w of Inl e \<Rightarrow> Inl e
           | Inr (d1, w1) \<Rightarrow> speaker_loop root ss d1 w1)"
  proof (rule follows_then [OF Cons.prems(1)])
    show "follows root w0 w data (plan_speaker w0 root s) (libri_speaker root s data w)"
      using Cons.prems by (intro libri_speaker_follows [OF wf]) simp_all
  next
    fix es w1
    assume "later root w0 w1"
    then show "follows root w0 w1 (data @ es) (collect (plan_speaker w0 root) ss)
                 (speaker_loop root ss (data @ es) w1)"
      using Cons.prems by (intro Cons.IH) simp_all
  qed
  then show ?case by simp
qed

text \<open>
  The constructor: a construction that returns has built the planned catalog; where
  the planned WAV files are present it returns that catalog and leaves the world as
  it is; where the \<open>.flac\<close> files are readable it ends as the plan says.
\<close>

lemma LibriSpeechDataset_init_plan:
  assumes wf: "wf_listings w0" and lw: "later root w0 w"
  shows "\<exists>p r. follows root w0 w [] p r \<and>
           libri_plan root w0 = p \<and>
           LibriSpeechDataset_init root w =
             (case r of Inl e \<Rightarrow> Inl e | Inr (data, w') \<Rightarrow> Inr (LibriSpeechDataset data, w'))"
proof -
  have same: "listdir w root = listdir w0 root"
    using lw chapter_path_not_root [of root] by (auto simp: later_def)
  show ?thesis
  proof (cases "listdir w0 root")
    case None
    with same have "libri_plan root w0 = Inl (FileNotFoundError root)"
      "LibriSpeechDataset_init root w = Inl (FileNotFoundError root)"
      by (simp_all add: libri_plan_def LibriSpeechDataset_init_def)
    then show ?thesis
      using follows_error [of root w0 w "[]" "FileNotFoundError root"]
      by (intro exI [of _ "Inl (FileNotFoundError root)"]) simp
  next
    case (Some sids)
    with wf have "\<forall>s\<in>set sids. is_name s"
      by (auto simp: wf_listings_def)
    from speaker_loop_follows [OF wf this lw, of "[]"]
    have f: "follows root w0 w [] (collect (plan_speaker w0 root) sids)
               (speaker_loop root sids [] w)" .
    moreover have "libri_plan root w0 = collect (plan_speaker w0 root) sids"
      using Some by (simp add: libri_plan_def)
    moreover have "LibriSpeechDataset_init root w =
        (case speaker_loop root sids [] w of
           Inl e \<Rightarrow> Inl e | Inr (data, w') \<Rightarrow> Inr (LibriSpeechDataset data, w'))"
      using same Some by (simp add: LibriSpeechDataset_init_def)
    ultimately show ?thesis by blast
  qed
qed

lemma LibriSpeechDataset_init_run:
  assumes wf: "wf_listings w0" and lw: "later root w0 w"
    and run: "LibriSpeechDataset_init root w = Inr (d, w')"
  shows "\<exists>es. libri_plan root w0 = Inr es \<and> d = LibriSpeechDataset es \<and>
           later root w0 w' \<and> fst ` set es \<subseteq> present w'"
proof -
  from LibriSpeechDataset_init_plan [OF wf lw] obtain p r where
    f: "follows root w0 w [] p r" and p: "libri_plan root w0 = p"
    and i: "LibriSpeechDataset_init root w =
             (case r of Inl e \<Rightarrow> Inl e | Inr (data, w') \<Rightarrow> Inr (LibriSpeechDataset data, w'))"
    by blast
  from i run obtain data where r: "r = Inr (data, w')" and d: "d = LibriSpeechDataset data"
    by (auto split: sum.splits)
  from follows_run [OF f r] p d show ?thesis
    by auto
qed

lemma LibriSpeechDataset_init_settled:
  assumes wf: "wf_listings w0" and lw: "later root w0 w"
    and plan: "libri_plan root w0 = Inr es" and here: "fst ` set es \<subseteq> present w"
  shows "LibriSpeechDataset_init root w = Inr (LibriSpeechDataset es, w)"
proof -
  from LibriSpeechDataset_init_plan [OF wf lw] obtain p r where
    f: "follows root w0 w [] p r" and p: "libri_plan root w0 = p"
    and i: "LibriSpeechDataset_init root w =
             (case r of Inl e \<Rightarrow> Inl e | Inr (data, w') \<Rightarrow> Inr (LibriSpeechDataset data, w'))"
    by blast
  from follows_settled [OF f _ here] p plan have "r = Inr ([] @ es, w)"
    by simp
  with i show ?thesis by simp
qed


subsection \<open>Constructing a dataset again\<close>

text \<open>
  A pass of a loop body over a CSV row that returns leaves the files and listings as
  they were and every path of its entries present; wherever those paths are present
  it returns the same entries and leaves the world alone.
\<close>

lemma sox_build_effect:
  "sox_build src dst w = Inr w1 \<Longrightarrow>
     csv_rows w1 = csv_rows w \<and> readlines w1 = readlines w \<and> listdir w1 = listdir w \<and>
     present w1 = insert dst (present w)"
  by (auto simp: sox_build_def split: if_splits)

lemma cv_row_settled:
  assumes "cv_row root r w = Inr (es, w1)"
  shows "csv_rows w1 = csv_rows w \<and> readlines w1 = readlines w \<and> listdir w1 = listdir w \<and>
     present w \<subseteq> present w1 \<and> fst ` set es \<subseteq> present w1 \<and>
     (\<forall>w2. fst ` set es \<subseteq> present w2 \<longrightarrow> cv_row root r w2 = Inr (es, w2))"
proof -
  from assms obtain t u up dv down where
    f: "row_get r ''text'' = Inr t" "row_get r ''up_votes'' = Inr u" "py_int u = Inr up"
       "row_get r ''down_votes'' = Inr dv" "py_int dv = Inr down"
    by (auto simp: cv_row_def Let_def split: sum.splits)
  show ?thesis
  proof (cases "up < 2 \<or> down > 0 \<or> length (lower t) = 0")
    case True
    with assms f show ?thesis
      by (auto simp: cv_row_def Let_def)
  next
    case False
    with assms f obtain fn where fn: "row_get r ''filename'' = Inr fn"
      by (auto simp: cv_row_def Let_def split: sum.splits)
    let ?mp3 = "path_join root fn"
    let ?wav = "str_replace ?mp3 ''.mp3'' ''.wav''"
    from assms f False fn have es: "es = [(?wav, lower t)]"
      and w1: "(if ?wav \<notin> present w then sox_build ?mp3 ?wav w else Inr w) = Inr w1"
      by (auto simp: cv_row_def Let_def split: sum.splits)
    have again: "cv_row root r w2 = Inr (es, w2)" if "?wav \<in> present w2" for w2
      using that f False fn es by (simp add: cv_row_def Let_def)
    show ?thesis
    proof (cases "?wav \<in> present w")
      case True
      with w1 es again show ?thesis by auto
    next
      case False
      with w1 have "sox_build ?mp3 ?wav w = Inr w1" by simp
      from sox_build_effect [OF this] es again show ?thesis by auto
    qed
  qed
qed

lemma custom_row_settled:
  assumes "custom_row root d w = Inr (es, w1)"
  shows "csv_rows w1 = csv_rows w \<and> readlines w1 = readlines w \<and> listdir w1 = listdir w \<and>
     present w \<subseteq> present w1 \<and> fst ` set es \<subseteq> present w1 \<and>
     (\<forall>w2. fst ` set es \<subseteq> present w2 \<longrightarrow> custom_row root d w2 = Inr (es, w2))"
proof -
  from assms obtain tx where t: "row_get d ''text'' = Inr tx"
    by (auto simp: custom_row_def split: sum.splits)
  show ?thesis
  proof (cases "tx = []")
    case True
    with assms t show ?thesis
      by (auto simp: custom_row_def)
  next
    case False
    with assms t obtain language where l: "row_get d ''language'' = Inr language"
      by (auto simp: custom_row_def split: sum.splits)
    show ?thesis
    proof (cases "language = ''EN''")
      case False
      with assms t l \<open>tx \<noteq> []\<close> show ?thesis
        by (auto simp: custom_row_def)
    next
      case True
      with assms t l \<open>tx \<noteq> []\<close> obtain fname where fl: "row_get d ''file'' = Inr fname"
        by (auto simp: custom_row_def split: sum.splits)
      let ?wav = "path_join root fname"
      let ?orig = "path_join3 root ''original'' fname"
      from assms t l \<open>tx \<noteq> []\<close> True fl have es: "es = [(?wav, tx), (?wav, tx)]"
        and w1: "(if ?wav \<notin> present w then sox_build ?orig ?wav w else Inr w) = Inr w1"
        by (auto simp: custom_row_def Let_def split: sum.splits)
      have again: "custom_row root d w2 = Inr (es, w2)" if "?wav \<in> present w2" for w2
        using that t l \<open>tx \<noteq> []\<close> True fl es by (simp add: custom_row_def Let_def)
      show ?thesis
      proof (cases "?wav \<in> present w")
        case True
        with w1 es again show ?thesis by auto
      next
        case False
        with w1 have "sox_build ?orig ?wav w = Inr w1" by simp
        from sox_build_effect [OF this] es again show ?thesis by auto
      qed
    qed
  qed
qed

lemma rows_loop_again:
  assumes body: "\<And>r w es w1. body r w = Inr (es, w1) \<Longrightarrow>
      csv_rows w1 = csv_rows w \<and> readlines w1 = readlines w \<and> listdir w1 = listdir w \<and>
      present w \<subseteq> present w1 \<and> fst ` set es \<subseteq> present w1 \<and>
      (\<forall>w2. fst ` set es \<subseteq> present w2 \<longrightarrow> body r w2 = Inr (es, w2))"
  shows "rows_loop body rows data w = Inr (data', w') \<Longrightarrow>
     \<exists>es. data' = data @ es \<and> csv_rows w' = csv_rows w \<and> readlines w' = readlines w \<and>
       listdir w' = listdir w \<and> present w \<subseteq> present w' \<and> fst ` set es \<subseteq> present w' \<and>
       (\<forall>w2 data2. fst ` set es \<subseteq> present w2 \<longrightarrow>
          rows_loop body rows data2 w2 = Inr (data2 @ es, w2))"
proof (induction rows arbitrary: data w)
  case Nil
  then show ?case by simp
next
  case (Cons r rs)
  from Cons.prems obtain es1 w1 where
    first: "body r w = Inr (es1, w1)" and
    rest: "rows_loop body rs (data @ es1) w1 = Inr (data', w')"
    by (auto split: sum.splits)
  note b = body [OF first]
  from Cons.IH [OF rest] obtain es2 where es2:
    "data' = (data @ es1) @ es2" "csv_rows w' = csv_rows w1" "readlines w' = readlines w1"
    "listdir w' = listdir w1" "present w1 \<subseteq> present w'" "fst ` set es2 \<subseteq> present w'"
    "\<forall>w2 data2. fst ` set es2 \<subseteq> present w2 \<longrightarrow>
       rows_loop body rs data2 w2 = Inr (data2 @ es2, w2)"
    by blast
  have again: "rows_loop body (r # rs) data2 w2 = Inr (data2 @ (es1 @ es2), w2)"
    if "fst ` set (es1 @ es2) \<subseteq> present w2" for w2 data2
  proof -
    from that have "fst ` set es1 \<subseteq> present w2" "fst ` set es2 \<subseteq> present w2"
      by auto
    with b es2(7) have "body r w2 = Inr (es1, w2)"
      "rows_loop body rs (data2 @ es1) w2 = Inr ((data2 @ es1) @ es2, w2)"
      by simp_all
    then show ?thesis by simp
  qed
  have "fst ` set (es1 @ es2) \<subseteq> present w'"
    using b es2(5,6) by auto
  moreover have "present w \<subseteq> present w'"
    using b es2(5) by blast
  ultimately show ?case
    using es2(1-4) b again by (intro exI [of _ "es1 @ es2"]) simp
qed

lemma unchanged_later:
  "csv_rows w1 = csv_rows w \<Longrightarrow> readlines w1 = readlines w \<Longrightarrow> listdir w1 = listdir w \<Longrightarrow>
     later root w w1"
  by (simp add: later_def)

lemma CommonVoiceDataset_init_again:
  assumes "CommonVoiceDataset_init root w = Inr (d, w1)"
  shows "later root w w1 \<and> fst ` set (data_of d) \<subseteq> present w1 \<and>
     (\<forall>w2. later root w w2 \<and> fst ` set (data_of d) \<subseteq> present w2 \<longrightarrow>
        CommonVoiceDataset_init root w2 = Inr (d, w2))"
proof -
  let ?p = "path_join root ''cv-valid-test.csv''"
  from assms obtain rows data where rows: "csv_rows w ?p = Some rows"
    and loop: "rows_loop (cv_row root) rows [] w = Inr (data, w1)" and d: "d = CommonVoiceDataset data"
    by (auto simp: CommonVoiceDataset_init_def Let_def split: option.splits sum.splits)
  from rows_loop_again [of "cv_row root", OF cv_row_settled loop] obtain es where es:
    "data = [] @ es" "csv_rows w1 = csv_rows w" "readlines w1 = readlines w"
    "listdir w1 = listdir w" "fst ` set es \<subseteq> present w1"
    "\<forall>w2 data2. fst ` set es \<subseteq> present w2 \<longrightarrow>
       rows_loop (cv_row root) rows data2 w2 = Inr (data2 @ es, w2)"
    by blast
  have "CommonVoiceDataset_init root w2 = Inr (d, w2)"
    if "later root w w2" "fst ` set (data_of d) \<subseteq> present w2" for w2
  proof -
    from that(1) rows have "csv_rows w2 ?p = Some rows"
      by (simp add: later_def)
    moreover from that(2) d es(1,6) have "rows_loop (cv_row root) rows [] w2 = Inr (data, w2)"
      by simp
    ultimately show ?thesis
      using d by (simp add: CommonVoiceDataset_init_def)
  qed
  with es d unchanged_later [of w1 w root] show ?thesis
    by simp
qed

lemma CustomDataset_init_again:
  assumes "CustomDataset_init root w = Inr (d, w1)"
  shows "later root w w1 \<and> fst ` set (data_of d) \<subseteq> present w1 \<and>
     (\<forall>w2. later root w w2 \<and> fst ` set (data_of d) \<subseteq> present w2 \<longrightarrow>
        CustomDataset_init root w2 = Inr (d, w2))"
proof -
  let ?p = "path_join root ''annotations.csv''"
  from assms obtain rows data where rows: "csv_rows w ?p = Some rows"
    and loop: "rows_loop (custom_row root) rows [] w = Inr (data, w1)" and d: "d = CustomDataset data"
    by (auto simp: CustomDataset_init_def Let_def split: option.splits sum.splits)
  from rows_loop_again [of "custom_row root", OF custom_row_settled loop] obtain es where es:
    "data = [] @ es" "csv_rows w1 = csv_rows w" "readlines w1 = readlines w"
    "listdir w1 = listdir w" "fst ` set es \<subseteq> present w1"
    "\<forall>w2 data2. fst ` set es \<subseteq> present w2 \<longrightarrow>
       rows_loop (custom_row root) rows data2 w2 = Inr (data2 @ es, w2)"
    by blast
  have "CustomDataset_init root w2 = Inr (d, w2)"
    if "later root w w2" "fst ` set (data_of d) \<subseteq> present w2" for w2
  proof -
    from that(1) rows have "csv_rows w2 ?p = Some rows"
      by (simp add: later_def)
    moreover from that(2) d es(1,6) have "rows_loop (custom_row root) rows [] w2 = Inr (data, w2)"
      by simp
    ultimately show ?thesis
      using d by (simp add: CustomDataset_init_def)
  qed
  with es d unchanged_later [of w1 w root] show ?thesis
    by simp
qed

lemma LibriSpeechDataset_init_again:
  assumes wf: "wf_listings w" and run: "LibriSpeechDataset_init root w = Inr (d, w1)"
  shows "later root w w1 \<and> fst ` set (data_of d) \<subseteq> present w1 \<and>
     (\<forall>w2. later root w w2 \<and> fst ` set (data_of d) \<subseteq> present w2 \<longrightarrow>
        LibriSpeechDataset_init root w2 = Inr (d, w2))"
proof -
  from LibriSpeechDataset_init_run [OF wf later_refl run]
  obtain es where plan: "libri_plan root w = Inr es" and d: "d = LibriSpeechDataset es"
    and w1: "later root w w1" "fst ` set es \<subseteq> present w1"
    by blast
  have "LibriSpeechDataset_init root w2 = Inr (d, w2)"
    if "later root w w2" "fst ` set (data_of d) \<subseteq> present w2" for w2
    using LibriSpeechDataset_init_settled [OF wf that(1) plan] d that(2) by simp
  with w1 d show ?thesis
    by simp
qed

text \<open>
  C4. Let the construction of a dataset of any of the three types return, leaving the
  world \<open>w1\<close>. Then every WAV file of the catalog is present in \<open>w1\<close>, and
  constructing the same dataset in \<open>w1\<close>, or in any later state \<open>w2\<close> of the corpus
  in which those WAV files are present, returns the same catalog (the same entries in
  the same order) and leaves the world as it is: nothing is converted or written.
  For LibriSpeech the listings are taken to hold names of directory entries.
\<close>

theorem construct_again:
  assumes "dataset_type = ''librispeech'' \<longrightarrow> wf_listings w"
    and "create cls dataset_type root w = Inr (d, w1)"
  shows "fst ` set (data_of d) \<subseteq> present w1 \<and>
     create cls dataset_type root w1 = Inr (d, w1) \<and>
     (\<forall>w2. later root w w2 \<and> fst ` set (data_of d) \<subseteq> present w2 \<longrightarrow>
        create cls dataset_type root w2 = Inr (d, w2))"
proof -
  have known: "dataset_type = ''commonvoice'' \<or> dataset_type = ''librispeech''
      \<or> dataset_type = ''custom''"
    using assms(2) by (auto simp: create_def split: if_splits)
  have "later root w w1 \<and> fst ` set (data_of d) \<subseteq> present w1 \<and>
     (\<forall>w2. later root w w2 \<and> fst ` set (data_of d) \<subseteq> present w2 \<longrightarrow>
        create cls dataset_type root w2 = Inr (d, w2))"
  proof -
    consider (cv) "dataset_type = ''commonvoice''" | (ls) "dataset_type = ''librispeech''"
      | (cu) "dataset_type = ''custom''"
      using known by blast
    then show ?thesis
    proof cases
      case cv
      with assms(2) have "CommonVoiceDataset_init root w = Inr (d, w1)"
        by (simp add: create_def)
      from CommonVoiceDataset_init_again [OF this] cv show ?thesis
        by (simp add: create_def)
    next
      case ls
      with assms have "wf_listings w" "LibriSpeechDataset_init root w = Inr (d, w1)"
        by (simp_all add: create_def)
      from LibriSpeechDataset_init_again [OF this] ls show ?thesis
        by (simp add: create_def)
    next
      case cu
      with assms(2) have "CustomDataset_init root w = Inr (d, w1)"
        by (simp add: create_def)
      from CustomDataset_init_again [OF this] cu show ?thesis
        by (simp add: create_def)
    qed
  qed
  then show ?thesis by blast
qed

lemma libri_example_wf: "wf_listings libri_example"
  by (auto simp: wf_listings_def libri_example_def empty_world_def is_name_def split: if_splits)

lemma libri_example_init:
  "LibriSpeechDataset_init ''/ls'' libri_example =
     Inr (LibriSpeechDataset [(''/ls/19/198/19-198-0000.wav'', ''NORTHANGER ABBEY'' @ [CHR 0x0A])],
          soundfile_write ''/ls/19/198'' ''19-198-0000.wav'' ''/ls/19/198/19-198-0000.flac''
            5 libri_example)"
proof -
  have dirs: "listdir libri_example ''/ls'' = Some [''19'']"
    "listdir libri_example ''/ls/19'' = Some [''198'']"
    by (simp_all add: libri_example_def empty_world_def)
  have path: "path_join ''/ls'' ''19'' = ''/ls/19''"
    by code_simp
  show ?thesis
    by (simp add: LibriSpeechDataset_init_def dirs libri_speaker_def path libri_example_chapter)
qed

theorem construct_again_witness:
  "wf_listings libri_example \<and>
   create ''Dataset'' ''librispeech'' ''/ls'' libri_example =
     Inr (LibriSpeechDataset [(''/ls/19/198/19-198-0000.wav'', ''NORTHANGER ABBEY'' @ [CHR 0x0A])],
          soundfile_write ''/ls/19/198'' ''19-198-0000.wav'' ''/ls/19/198/19-198-0000.flac''
            5 libri_example) \<and>
   conversions (soundfile_write ''/ls/19/198'' ''19-198-0000.wav''
       ''/ls/19/198/19-198-0000.flac'' 5 libri_example) =
     [(''/ls/19/198/19-198-0000.flac'', ''/ls/19/198/19-198-0000.wav'')] \<and>
   create ''Dataset'' ''librispeech'' ''/ls''
       (soundfile_write ''/ls/19/198'' ''19-198-0000.wav'' ''/ls/19/198/19-198-0000.flac''
          5 libri_example) =
     Inr (LibriSpeechDataset [(''/ls/19/198/19-198-0000.wav'', ''NORTHANGER ABBEY'' @ [CHR 0x0A])],
          soundfile_write ''/ls/19/198'' ''19-198-0000.wav'' ''/ls/19/198/19-198-0000.flac''
            5 libri_example)"
proof -
  let ?w1 = "soundfile_write ''/ls/19/198'' ''19-198-0000.wav'' ''/ls/19/198/19-198-0000.flac''
               5 libri_example"
  let ?d = "LibriSpeechDataset [(''/ls/19/198/19-198-0000.wav'', ''NORTHANGER ABBEY'' @ [CHR 0x0A])]"
  have wf: "''librispeech'' = ''librispeech'' \<longrightarrow> wf_listings libri_example"
    by (simp add: libri_example_wf)
  have run: "create ''Dataset'' ''librispeech'' ''/ls'' libri_example = Inr (?d, ?w1)"
    by (simp add: create_def libri_example_init)
  have log: "conversions ?w1 = [(''/ls/19/198/19-198-0000.flac'', ''/ls/19/198/19-198-0000.wav'')]"
  proof -
    have "path_join ''/ls/19/198'' ''19-198-0000.wav'' = ''/ls/19/198/19-198-0000.wav''"
      by code_simp
    then show ?thesis
      by (simp add: soundfile_write_def libri_example_def empty_world_def)
  qed
  from construct_again [OF wf run] libri_example_wf run log show ?thesis
    by simp
qed

subsection \<open>LibriSpeech builder: a missing transcript key\<close>




























subsection \<open>The catalog after construction\<close>

lemma list_index_map: "list_index (map f xs) i = map_sum id f (list_index xs i)"
  by (simp add: list_index_def Let_def)

lemma get_data_of: "get d i = list_index (data_of d) i"
  by (cases d) simp_all

lemma size_data_of: "size_ds d = int (length (data_of d))"
  by (cases d) simp_all

lemma label_of_class_name: "label_of (class_name d) = Some (str_ds d)"
  by (cases d) (simp_all add: label_of_def)

lemma holds_data:
  assumes "holds s self d"
  obtains v where "attrs s (self, ''_data'') = Some v"
    and "list_of s v = Some (map entry_val (data_of d))"
    and "class_of s self = Some (class_name d)" and "concrete s self"
proof -
  from assms obtain v where "attrs s (self, ''_data'') = Some v"
    "list_of s v = Some (map entry_val (data_of d))" "class_of s self = Some (class_name d)"
    by (auto simp: holds_def split: option.splits)
  moreover from this(3) have "concrete s self"
    by (simp add: concrete_def label_of_class_name)
  ultimately show ?thesis
    by (rule that)
qed

lemma size_m_holds:
  assumes "holds s self d"
  shows "size_m self s = (Inr (VInt (size_ds d)), s)"
proof -
  from assms obtain v where "attrs s (self, ''_data'') = Some v"
    "list_of s v = Some (map entry_val (data_of d))" "concrete s self"
    by (rule holds_data)
  then show ?thesis
    by (simp add: size_m_def bind_st_def getattr_def list_len_def size_data_of)
qed

lemma get_m_holds:
  assumes "holds s self d"
  shows "get_m self (VInt i) s = (map_sum id entry_val (get d i), s)"
proof -
  from assms obtain v where "attrs s (self, ''_data'') = Some v"
    "list_of s v = Some (map entry_val (data_of d))" "concrete s self"
    by (rule holds_data)
  then show ?thesis
    by (simp add: get_m_def bind_st_def getattr_def list_index_map get_data_of)
qed

lemma str_m_holds:
  assumes "holds s self d"
  shows "str_m self s = (Inr (VStr (str_ds d)), s)"
proof -
  from assms have "class_of s self = Some (class_name d)"
    by (rule holds_data)
  then show ?thesis
    by (simp add: str_m_def label_of_class_name)
qed

lemma sizes_m_holds:
  assumes "holds s self d"
  shows "sizes_m self w is s = (read_sizes d w is, s)"
proof (induction "is")
  case Nil
  show ?case by simp
next
  case (Cons i "is")
  show ?case
  proof (cases "get d i")
    case (Inl e)
    then show ?thesis
      by (simp add: get_m_holds [OF assms])
  next
    case (Inr e)
    obtain path tx where e: "e = (path, tx)"
      by (cases e)
    show ?thesis
    proof (cases "soundfile_read path w")
      case (Inl err)
      with Inr e show ?thesis
        by (simp add: get_m_holds [OF assms] entry_val_def)
    next
      case r: (Inr n)
      with Inr e Cons.IH show ?thesis
        by (simp add: get_m_holds [OF assms] entry_val_def split: sum.splits)
    qed
  qed
qed

lemma duration_m_holds:
  assumes "holds s self d"
  shows "duration_m divisor self w s =
     (case read_sizes d w (range_size d) of
        Inl e \<Rightarrow> (Inl e, s)
      | Inr ns \<Rightarrow> (Inr (VFrac (sum_list ns, divisor)), s))"
  by (simp add: duration_m_def size_m_holds [OF assms] sizes_m_holds [OF assms] range_size_def
      split: sum.splits)

lemma call_method_holds:
  assumes "holds s self d"
  shows "call_method c self w s = (answer c d w, s)"
proof (cases c)
  case Size
  then show ?thesis by (simp add: size_m_holds [OF assms])
next
  case (Get i)
  then show ?thesis by (simp add: get_m_holds [OF assms])
next
  case SizeSeconds
  then show ?thesis
    by (simp add: size_seconds_m_def duration_m_holds [OF assms] size_seconds_def
        split: sum.splits)
next
  case SizeHours
  then show ?thesis
    by (simp add: size_hours_m_def duration_m_holds [OF assms] size_hours_def
        split: sum.splits)
next
  case Str
  then show ?thesis by (simp add: str_m_holds [OF assms])
qed

lemma call_methods_holds:
  "holds s self d \<Longrightarrow> call_methods cs self w s = s"
  by (induction cs) (simp_all add: call_method_holds)

text \<open>
  The store is not read-only in itself. The constructor's appends change the list of
  the object, and so does an append through the reference that \<open>all_data\<close> hands out:
  afterwards the object is another dataset, with one entry more.
\<close>

lemma append_all_list:
  "lists s r = Some xs \<Longrightarrow>
     lists (append_all r es s) r = Some (xs @ map entry_val es) \<and>
     attrs (append_all r es s) = attrs s \<and> class_of (append_all r es s) = class_of s"
proof (induction es arbitrary: s xs)
  case Nil
  then show ?case by (simp add: append_all_def)
next
  case (Cons e es)
  let ?s1 = "s\<lparr>lists := (lists s)(r \<mapsto> xs @ [entry_val e])\<rparr>"
  have step: "append_all r (e # es) s = append_all r es ?s1"
    using Cons.prems by (simp add: append_all_def)
  have "lists ?s1 r = Some (xs @ [entry_val e])" by simp
  from Cons.IH [OF this] show ?case
    unfolding step by simp
qed

lemma store_dataset_holds: "holds (store_dataset d self r s) self d"
proof -
  let ?s0 = "snd (setattr self ''_data'' (VRef r)
          (s\<lparr>lists := (lists s)(r \<mapsto> []), class_of := (class_of s)(self \<mapsto> class_name d)\<rparr>))"
  have "lists ?s0 r = Some []"
    by (simp add: setattr_def)
  from append_all_list [OF this, of "data_of d"] show ?thesis
    by (simp add: store_dataset_def holds_def setattr_def)
qed

lemma append_through_all_data:
  assumes "holds s self (CustomDataset xs)"
  shows "\<exists>v. all_data_m self s = (Inr v, s) \<and>
           holds (snd (list_append v (entry_val e) s)) self (CustomDataset (xs @ [e]))"
proof -
  from assms obtain v where v: "attrs s (self, ''_data'') = Some v"
    "list_of s v = Some (map entry_val (data_of (CustomDataset xs)))"
    "class_of s self = Some (class_name (CustomDataset xs))"
    by (rule holds_data)
  from v(2) obtain r where r: "v = VRef r" "lists s r = Some (map entry_val xs)"
    by (cases v) simp_all
  have "all_data_m self s = (Inr v, s)"
    using v(1,3) by (simp add: all_data_m_def getattr_def)
  moreover have "holds (snd (list_append v (entry_val e) s)) self (CustomDataset (xs @ [e]))"
    using v(1,3) r by (simp add: holds_def)
  ultimately show ?thesis by blast
qed

text \<open>
  C9. Let the object at \<open>self\<close> be a dataset \<open>d\<close> of any variant. Whatever sequence of
  calls of \<open>size\<close>, \<open>get\<close>, \<open>size_seconds\<close>, \<open>size_hours\<close> and \<open>__str__\<close> is made on
  it, the store afterwards is the store before, the object is still the dataset \<open>d\<close>,
  and a further call answers what \<open>d\<close> determines: \<open>size()\<close> the number of its entries
  and \<open>get(i)\<close> its entry at \<open>i\<close>, the same on every call.
\<close>

theorem catalog_read_only:
  assumes "holds s self d"
  shows "call_methods cs self w s = s \<and>
     holds (call_methods cs self w s) self d \<and>
     call_method c self w (call_methods cs self w s) = (answer c d w, call_methods cs self w s) \<and>
     size_m self (call_methods cs self w s) = (Inr (VInt (size_ds d)), s) \<and>
     get_m self (VInt i) (call_methods cs self w s) = (map_sum id entry_val (get d i), s)"
  using assms
  by (simp add: call_methods_holds call_method_holds size_m_holds get_m_holds)

theorem catalog_read_only_witness:
  "holds (store_dataset (CustomDataset [(''/data/a.wav'', ''hi''), (''/data/b.wav'', ''ho'')])
            0 1 empty_store) 0
     (CustomDataset [(''/data/a.wav'', ''hi''), (''/data/b.wav'', ''ho'')]) \<and>
   call_methods [Size, Get 0, SizeSeconds, Str, Get (- 1), Get 7] 0 custom_example
       (store_dataset (CustomDataset [(''/data/a.wav'', ''hi''), (''/data/b.wav'', ''ho'')])
          0 1 empty_store) =
     store_dataset (CustomDataset [(''/data/a.wav'', ''hi''), (''/data/b.wav'', ''ho'')])
       0 1 empty_store \<and>
   size_m 0 (call_methods [Size, Get 0, SizeSeconds, Str, Get (- 1), Get 7] 0 custom_example
       (store_dataset (CustomDataset [(''/data/a.wav'', ''hi''), (''/data/b.wav'', ''ho'')])
          0 1 empty_store)) =
     (Inr (VInt 2),
      store_dataset (CustomDataset [(''/data/a.wav'', ''hi''), (''/data/b.wav'', ''ho'')])
        0 1 empty_store) \<and>
   get_m 0 (VInt 1) (call_methods [Size, Get 0, SizeSeconds, Str, Get (- 1), Get 7] 0 custom_example
       (store_dataset (CustomDataset [(''/data/a.wav'', ''hi''), (''/data/b.wav'', ''ho'')])
          0 1 empty_store)) =
     (Inr (VTuple [VStr ''/data/b.wav'', VStr ''ho'']),
      store_dataset (CustomDataset [(''/data/a.wav'', ''hi''), (''/data/b.wav'', ''ho'')])
        0 1 empty_store)"
proof -
  let ?d = "CustomDataset [(''/data/a.wav'', ''hi''), (''/data/b.wav'', ''ho'')]"
  let ?s = "store_dataset ?d 0 1 empty_store"
  let ?cs = "[Size, Get 0, SizeSeconds, Str, Get (- 1), Get 7]"
  have h: "holds ?s 0 ?d"
    by (rule store_dataset_holds)
  note t = catalog_read_only [OF h, of ?cs custom_example Size 1]
  from t have a: "call_methods ?cs 0 custom_example ?s = ?s" ..
  from t have b: "size_m 0 (call_methods ?cs 0 custom_example ?s) = (Inr (VInt (size_ds ?d)), ?s)"
    by blast
  from t have c: "get_m 0 (VInt 1) (call_methods ?cs 0 custom_example ?s) =
      (map_sum id entry_val (get ?d 1), ?s)"
    by blast
  have sz: "size_ds ?d = 2"
    by simp
  have g: "map_sum id entry_val (get ?d 1) = Inr (VTuple [VStr ''/data/b.wav'', VStr ''ho''])"
    by (simp add: list_index_def entry_val_def)
  show ?thesis
  proof (intro conjI)
    show "holds ?s 0 ?d" by (rule h)
    show "call_methods ?cs 0 custom_example ?s = ?s" by (rule a)
    show "size_m 0 (call_methods ?cs 0 custom_example ?s) = (Inr (VInt 2), ?s)"
      by (simp only: b sz)
    show "get_m 0 (VInt 1) (call_methods ?cs 0 custom_example ?s) =
        (Inr (VTuple [VStr ''/data/b.wav'', VStr ''ho'']), ?s)"
      by (simp only: c g)
  qed
qed

end
